theory Spec2Isabelle
  imports Complex_Main "HOL-Library.AList"
begin

section \<open>The door monitor of \<open>real_bot/cogs/monitor.py\<close>\<close>

text \<open>
  The cog \<open>Monitor\<close> polls an HTTP endpoint for the state of a door, edits one status
  message per linked guild when the state changes, keeps a bounded history of the
  changes and renders that history in pages. The functions below follow the methods of
  the class one by one. What the methods do to \<open>self\<close> is explicit state passing on the
  record \<open>monitor\<close>; what they get from outside (the HTTP response, the clock, the chat
  platform's \<open>edit\<close> and \<open>send\<close>) is a parameter; every exception the code can raise is a
  value of \<open>exn\<close>. The commands \<open>start_monitor\<close> and \<open>stop_monitor\<close> only call \<open>start\<close>
  and \<open>stop\<close> of the framework's \<open>tasks.Loop\<close>, whose code is not part of the
  repository; they and \<open>test_link\<close> are not modelled.
\<close>

subsection \<open>Python values and exceptions\<close>

text \<open>
  The values \<open>json()\<close> can return, which are also the values \<open>door_open\<close> can hold.
  JSON numbers with a fraction or an exponent (Python floats) are left out. A
  \<open>PDict\<close> lists the items of a dict, whose keys are strings here.
\<close>

datatype pyval =
    PNone
  | PBool bool
  | PInt int
  | PStr string
  | PList "pyval list"
  | PDict "(string \<times> pyval) list"

datatype exn =
    ConnectionError
  | Timeout
  | JSONDecodeError
  | KeyError
  | IndexError
  | TypeError
  | ZeroDivisionError
  | HTTPException

text \<open>Truth value testing, as \<open>if door_open:\<close> does it.\<close>

fun truthy :: "pyval \<Rightarrow> bool" where
  "truthy PNone = False"
| "truthy (PBool b) = b"
| "truthy (PInt i) = (i \<noteq> 0)"
| "truthy (PStr s) = (s \<noteq> [])"
| "truthy (PList xs) = (xs \<noteq> [])"
| "truthy (PDict kvs) = (kvs \<noteq> [])"

text \<open>\<open>x[k]\<close> for a string key \<open>k\<close>.\<close>

fun getitem_str :: "pyval \<Rightarrow> string \<Rightarrow> exn + pyval" where
  "getitem_str (PDict kvs) k = (case map_of kvs k of None \<Rightarrow> Inl KeyError | Some v \<Rightarrow> Inr v)"
| "getitem_str PNone k = Inl TypeError"
| "getitem_str (PBool b) k = Inl TypeError"
| "getitem_str (PInt i) k = Inl TypeError"
| "getitem_str (PStr s) k = Inl TypeError"
| "getitem_str (PList xs) k = Inl TypeError"

text \<open>\<open>x[0]\<close>. A dict parsed from JSON has no key \<open>0\<close>.\<close>

fun getitem_zero :: "pyval \<Rightarrow> exn + pyval" where
  "getitem_zero (PList []) = Inl IndexError"
| "getitem_zero (PList (x # xs)) = Inr x"
| "getitem_zero (PStr []) = Inl IndexError"
| "getitem_zero (PStr (c # cs)) = Inr (PStr [c])"
| "getitem_zero (PDict kvs) = Inl KeyError"
| "getitem_zero PNone = Inl TypeError"
| "getitem_zero (PBool b) = Inl TypeError"
| "getitem_zero (PInt i) = Inl TypeError"

text \<open>\<open>str(n)\<close> for an integer, used by the f-strings.\<close>

fun str_nat :: "nat \<Rightarrow> string" where
  "str_nat n =
     (if n < 10 then [char_of (48 + n)]
      else str_nat (n div 10) @ [char_of (48 + n mod 10)])"

declare str_nat.simps [simp del]

definition str_int :: "int \<Rightarrow> string" where
  "str_int i = (if i < 0 then CHR ''-'' # str_nat (nat (- i)) else str_nat (nat i))"

text \<open>
  \<open>xs[start:end]\<close> with Python's clipping: a negative index counts from the end, and
  both indices are clipped to \<open>0 .. len(xs)\<close>.
\<close>

definition py_slice :: "'a list \<Rightarrow> int \<Rightarrow> int \<Rightarrow> 'a list" where
  "py_slice xs start end =
     (let n = int (length xs);
          s = (if start < 0 then max (start + n) 0 else min start n);
          e = (if end < 0 then max (end + n) 0 else min end n)
      in take (nat (e - s)) (drop (nat s) xs))"

subsection \<open>Embeds, messages and the state of the cog\<close>

datatype colour = Green | Red | Blurple

record embed =
  title :: string
  description :: string
  color :: "colour option"
  thumbnail :: "string option"
  footer :: "string option"

text \<open>A sent status message: where it is and what it shows.\<close>

record message =
  channel_mention :: string
  shown :: embed

record text_channel =
  mention :: string

text \<open>
  \<open>self.messages\<close> is a dict: an association list in insertion order, read with
  \<open>map_of\<close> and written with \<open>AList.update\<close> (which replaces in place or appends).
  The configuration values are Python ints.
\<close>

record monitor =
  messages :: "(int \<times> message) list"
  refresh_rate :: int
  num_per_page :: int
  max_history_len :: int
  history :: "(int \<times> string) list"

definition emojis :: "(string \<times> string) list" where
  "emojis = [(''Open'', '':unlock:''), (''Closed'', '':lock:'')]"

text \<open>\<open>Monitor.__init__\<close>, with its three configuration arguments.\<close>

definition Monitor_init :: "int \<Rightarrow> int \<Rightarrow> int \<Rightarrow> monitor" where
  "Monitor_init rr npp mhl =
     \<lparr>messages = [], refresh_rate = rr, num_per_page = npp, max_history_len = mhl,
      history = []\<rparr>"

subsection \<open>\<open>create_status_embed\<close>\<close>

text \<open>
  The second argument is the reading of \<open>datetime.now()\<close>. The attached logo file is
  not part of the model.
\<close>

definition create_status_embed :: "pyval \<Rightarrow> int \<Rightarrow> embed" where
  "create_status_embed door_open now =
     (let timestamp = ''<t:'' @ str_int now @ ''>'' in
      if truthy door_open then
        \<lparr>title = ''CS Club Door Status'',
         description = ''MQH 227 is now open - '' @ timestamp,
         color = Some Green, thumbnail = Some ''attachment://logo.png'', footer = None\<rparr>
      else
        \<lparr>title = ''CS Club Door Status'',
         description = ''MQH 227 is now closed - '' @ timestamp,
         color = Some Red, thumbnail = Some ''attachment://logo.png'', footer = None\<rparr>)"

subsection \<open>\<open>send_announcement\<close>: one tick of the poller\<close>

text \<open>
  What the request of line 90 gave: it raised, or the body could not be decoded as
  JSON, or it was decoded.
\<close>

datatype http_result = Raised exn | Undecodable | Decoded pyval

text \<open>The body of the \<open>try\<close>: the request, \<open>json()\<close> and \<open>["door"][0]["open"]\<close>.\<close>

definition fetch_door :: "http_result \<Rightarrow> exn + pyval" where
  "fetch_door r =
     (case r of
        Raised e \<Rightarrow> Inl e
      | Undecodable \<Rightarrow> Inl JSONDecodeError
      | Decoded j \<Rightarrow>
          (case getitem_str j ''door'' of
             Inl e \<Rightarrow> Inl e
           | Inr d \<Rightarrow>
               (case getitem_zero d of
                  Inl e \<Rightarrow> Inl e
                | Inr z \<Rightarrow> getitem_str z ''open'')))"

text \<open>The \<open>try ... except\<close>: the value of \<open>door_open\<close> after it, and what was printed.\<close>

definition observed :: "http_result \<Rightarrow> pyval" where
  "observed r = (case fetch_door r of Inl e \<Rightarrow> PBool False | Inr v \<Rightarrow> v)"

definition printed :: "http_result \<Rightarrow> exn list" where
  "printed r = (case fetch_door r of Inl e \<Rightarrow> [e] | Inr v \<Rightarrow> [])"

text \<open>
  \<open>m[door_open]\<close> for \<open>m = {False: "Closed", True: "Open"}\<close>: \<open>0\<close> and \<open>1\<close> hash and
  compare like \<open>False\<close> and \<open>True\<close>, lists and dicts are unhashable.
\<close>

fun m_get :: "pyval \<Rightarrow> exn + string" where
  "m_get (PBool b) = Inr (if b then ''Open'' else ''Closed'')"
| "m_get (PInt i) =
     (if i = 0 then Inr ''Closed'' else if i = 1 then Inr ''Open'' else Inl KeyError)"
| "m_get PNone = Inl KeyError"
| "m_get (PStr s) = Inl KeyError"
| "m_get (PList xs) = Inl TypeError"
| "m_get (PDict kvs) = Inl TypeError"

text \<open>
  The loop of lines 101 to 103 over the keys of \<open>self.messages\<close>. \<open>clock i\<close> is the
  \<open>i\<close>-th reading of the clock in this tick. The result is the exception that ended
  the loop, if any, the dict as the loop left it, and the edits that were made.
\<close>

fun announce ::
  "(message \<Rightarrow> embed \<Rightarrow> exn + message) \<Rightarrow> (nat \<Rightarrow> int) \<Rightarrow> pyval \<Rightarrow> nat \<Rightarrow> int list \<Rightarrow>
   (int \<times> message) list \<Rightarrow> exn option \<times> (int \<times> message) list \<times> (int \<times> embed) list" where
  "announce edit clock d i [] ms = (None, ms, [])"
| "announce edit clock d i (g # gs) ms =
     (case map_of ms g of
        None \<Rightarrow> (Some KeyError, ms, [])
      | Some msg \<Rightarrow>
          (case edit msg (create_status_embed d (clock i)) of
             Inl e \<Rightarrow> (Some e, ms, [])
           | Inr msg' \<Rightarrow>
               (case announce edit clock d (Suc i) gs (AList.update g msg' ms) of
                  (r, ms', eds) \<Rightarrow> (r, ms', (g, create_status_embed d (clock i)) # eds))))"

text \<open>
  What one tick did: the state it left, the exception it raised, what it printed, the
  message edits that succeeded and the history records it appended.
\<close>

record tick_result =
  tr_state :: monitor
  tr_raised :: "exn option"
  tr_printed :: "exn list"
  tr_edits :: "(int \<times> embed) list"
  tr_appended :: "(int \<times> string) list"

type_synonym tick_env =
  "http_result \<times> (nat \<Rightarrow> int) \<times> (message \<Rightarrow> embed \<Rightarrow> exn + message)"

text \<open>Lines 105 to 107, once the loop has ended without an exception.\<close>

definition append_record :: "monitor \<Rightarrow> (int \<times> string) \<Rightarrow> monitor" where
  "append_record st r =
     (let h = history st @ [r] in
      st\<lparr>history := (if int (length h) > max_history_len st then drop 1 h else h)\<rparr>)"

text \<open>
  Lines 101 to 107, for the value \<open>door_open\<close> and what the \<open>try\<close> printed: the loop,
  then the append, whose \<open>m[door_open]\<close> is evaluated after the loop.
\<close>

definition tick_from :: "monitor \<Rightarrow> pyval \<Rightarrow> exn list \<Rightarrow> (nat \<Rightarrow> int) \<Rightarrow>
    (message \<Rightarrow> embed \<Rightarrow> exn + message) \<Rightarrow> tick_result" where
  "tick_from st door_open out clock edit =
     (case announce edit clock door_open 0 (map fst (messages st)) (messages st) of
        (Some e, ms, eds) \<Rightarrow>
          \<lparr>tr_state = st\<lparr>messages := ms\<rparr>, tr_raised = Some e, tr_printed = out,
           tr_edits = eds, tr_appended = []\<rparr>
      | (None, ms, eds) \<Rightarrow>
          (case m_get door_open of
             Inl e \<Rightarrow>
               \<lparr>tr_state = st\<lparr>messages := ms\<rparr>, tr_raised = Some e, tr_printed = out,
                tr_edits = eds, tr_appended = []\<rparr>
           | Inr label \<Rightarrow>
               \<lparr>tr_state =
                  append_record (st\<lparr>messages := ms\<rparr>)
                    (clock (length (messages st)), label),
                tr_raised = None, tr_printed = out, tr_edits = eds,
                tr_appended = [(clock (length (messages st)), label)]\<rparr>))"

text \<open>
  \<open>send_announcement\<close>, lines 88 to 107. Line 97 evaluates \<open>m[door_open]\<close> only when
  the history is not empty. A tick is taken to run to its end with no other command of
  the cog in between.
\<close>

definition tick :: "monitor \<Rightarrow> tick_env \<Rightarrow> tick_result" where
  "tick st env =
     (case env of (resp, clock, edit) \<Rightarrow>
        (if history st \<noteq> [] then
           (case m_get (observed resp) of
              Inl e \<Rightarrow>
                \<lparr>tr_state = st, tr_raised = Some e, tr_printed = printed resp,
                 tr_edits = [], tr_appended = []\<rparr>
            | Inr label \<Rightarrow>
                if label = snd (last (history st)) then
                  \<lparr>tr_state = st, tr_raised = None, tr_printed = printed resp,
                   tr_edits = [], tr_appended = []\<rparr>
                else tick_from st (observed resp) (printed resp) clock edit)
         else tick_from st (observed resp) (printed resp) clock edit))"

text \<open>
  A sequence of ticks, each on the state the one before left (also when that one
  raised), and the records they appended, in order.
\<close>

fun run :: "monitor \<Rightarrow> tick_env list \<Rightarrow> monitor" where
  "run st [] = st"
| "run st (env # envs) = run (tr_state (tick st env)) envs"

fun appended :: "monitor \<Rightarrow> tick_env list \<Rightarrow> (int \<times> string) list" where
  "appended st [] = []"
| "appended st (env # envs) =
     tr_appended (tick st env) @ appended (tr_state (tick st env)) envs"

subsection \<open>\<open>link_channel\<close>\<close>

text \<open>
  The argument \<open>channel\<close> is a text channel the framework found, or the string the
  user typed when it found none. \<open>send\<close> is the platform's \<open>channel.send\<close>, \<open>now\<close> the
  reading of the clock, \<open>guild_id\<close> is \<open>ctx.guild.id\<close>. The replies are the texts of
  the \<open>ctx.send\<close> calls, which are taken to succeed.
\<close>

datatype channel_arg = Found text_channel | NotFound string

record link_result =
  lr_state :: monitor
  lr_raised :: "exn option"
  lr_replies :: "string list"

definition link_channel :: "monitor \<Rightarrow> int \<Rightarrow> channel_arg \<Rightarrow> int \<Rightarrow>
    (text_channel \<Rightarrow> embed \<Rightarrow> exn + message) \<Rightarrow> link_result" where
  "link_channel st guild_id channel now send =
     (case channel of
        NotFound name \<Rightarrow>
          \<lparr>lr_state = st, lr_raised = None,
           lr_replies = [''Sorry, couldn't find the channel '' @ name @
             ''. Please try again, and make sure there aren't any typos.'']\<rparr>
      | Found ch \<Rightarrow>
          (let val = (if history st \<noteq> [] then PStr (snd (last (history st)))
                      else PBool False)
           in case send ch (create_status_embed val now) of
                Inl e \<Rightarrow> \<lparr>lr_state = st, lr_raised = Some e, lr_replies = []\<rparr>
              | Inr msg \<Rightarrow>
                  \<lparr>lr_state = st\<lparr>messages := AList.update guild_id msg (messages st)\<rparr>,
                   lr_raised = None,
                   lr_replies = [''Now using '' @ mention ch @
                     '' as the place to send announcements'']\<rparr>))"

subsection \<open>\<open>get_total_pages\<close> and \<open>get_page\<close>\<close>

definition get_total_pages :: "monitor \<Rightarrow> exn + int" where
  "get_total_pages st =
     (if num_per_page st = 0 then Inl ZeroDivisionError
      else Inr (int (length (history st)) div num_per_page st +
                (if int (length (history st)) mod num_per_page st \<noteq> 0 then 1 else 0)))"

text \<open>The records line 190 iterates over: \<open>reversed(self.history[start:end])\<close>.\<close>

definition page_records :: "monitor \<Rightarrow> int \<Rightarrow> (int \<times> string) list" where
  "page_records st page =
     (let start = - (page + 1) * num_per_page st;
          end = (if page \<noteq> 0 then - page * num_per_page st
                 else int (length (history st)))
      in rev (py_slice (history st) start end))"

text \<open>One line of the listing, and the loop that appends the lines to the description.\<close>

definition history_line :: "string \<Rightarrow> int \<Rightarrow> string \<Rightarrow> string" where
  "history_line emoji timestamp state =
     emoji @ '' '' @ state @ '' - <t:'' @ str_int timestamp @ ''>'' @ [CHR 0x0A]"

fun describe :: "string \<Rightarrow> (int \<times> string) list \<Rightarrow> exn + string" where
  "describe acc [] = Inr acc"
| "describe acc ((timestamp, state) # rs) =
     (case map_of emojis state of
        None \<Rightarrow> Inl KeyError
      | Some emoji \<Rightarrow> describe (acc @ history_line emoji timestamp state) rs)"

definition get_page :: "monitor \<Rightarrow> int \<Rightarrow> exn + embed" where
  "get_page st page =
     (case describe [] (page_records st page) of
        Inl e \<Rightarrow> Inl e
      | Inr d \<Rightarrow>
          (case get_total_pages st of
             Inl e \<Rightarrow> Inl e
           | Inr pages \<Rightarrow>
               Inr \<lparr>title = ''Door History'', description = d, color = Some Blurple,
                    thumbnail = None,
                    footer = Some (''Showing page '' @ str_int (page + 1) @ ''/'' @
                                   str_int pages)\<rparr>))"

subsection \<open>Notions used by the properties\<close>

text \<open>The last \<open>k\<close> elements of a list, in their order: the most recent \<open>k\<close>.\<close>

definition lastn :: "nat \<Rightarrow> 'a list \<Rightarrow> 'a list" where
  "lastn k xs = drop (length xs - k) xs"

text \<open>The trimming of lines 106 and 107, on a list.\<close>

definition trim :: "int \<Rightarrow> 'a list \<Rightarrow> 'a list" where
  "trim cap h = (if int (length h) > cap then drop 1 h else h)"

text \<open>No record has the state of the record before it.\<close>

fun no_adjacent_repeat :: "(int \<times> string) list \<Rightarrow> bool" where
  "no_adjacent_repeat [] = True"
| "no_adjacent_repeat [r] = True"
| "no_adjacent_repeat (r1 # r2 # rs) = (snd r1 \<noteq> snd r2 \<and> no_adjacent_repeat (r2 # rs))"

subsection \<open>A concrete run\<close>

text \<open>
  A clock that reads second \<open>t\<close> throughout a tick, an edit that succeeds, a response
  body \<open>{"door": [{"open": b}]}\<close>, and the scenario of five ticks that observe Closed,
  Open, Open, Closed, Open at the seconds 1 to 5.
\<close>

definition clock_at :: "int \<Rightarrow> nat \<Rightarrow> int" where
  "clock_at t i = t"

definition ok_edit :: "message \<Rightarrow> embed \<Rightarrow> exn + message" where
  "ok_edit msg emb = Inr (msg\<lparr>shown := emb\<rparr>)"

definition door_body :: "bool \<Rightarrow> http_result" where
  "door_body b = Decoded (PDict [(''door'', PList [PDict [(''open'', PBool b)]])])"

definition scenario :: "tick_env list" where
  "scenario =
     [(door_body False, clock_at 1, ok_edit),
      (door_body True, clock_at 2, ok_edit),
      (door_body True, clock_at 3, ok_edit),
      (door_body False, clock_at 4, ok_edit),
      (door_body True, clock_at 5, ok_edit)]"

subsection \<open>Two linked guilds\<close>

text \<open>
  A \<open>channel.send\<close> that succeeds, the cog after \<open>link_channel\<close> in the guilds 1 and
  2, and two platforms: one where the status message of the first channel can no
  longer be edited, one where that of the second cannot.
\<close>

definition ok_send :: "text_channel \<Rightarrow> embed \<Rightarrow> exn + message" where
  "ok_send ch emb = Inr \<lparr>channel_mention = mention ch, shown = emb\<rparr>"

definition two_guilds :: monitor where
  "two_guilds =
     lr_state (link_channel
       (lr_state (link_channel (Monitor_init 1 10 1000) 1
          (Found \<lparr>mention = ''<#10>''\<rparr>) 0 ok_send))
       2 (Found \<lparr>mention = ''<#20>''\<rparr>) 0 ok_send)"

definition edit_first_deleted :: "message \<Rightarrow> embed \<Rightarrow> exn + message" where
  "edit_first_deleted msg emb =
     (if channel_mention msg = ''<#10>'' then Inl HTTPException
      else Inr (msg\<lparr>shown := emb\<rparr>))"

definition edit_second_deleted :: "message \<Rightarrow> embed \<Rightarrow> exn + message" where
  "edit_second_deleted msg emb =
     (if channel_mention msg = ''<#20>'' then Inl HTTPException
      else Inr (msg\<lparr>shown := emb\<rparr>))"

subsection \<open>A cog whose last record is Closed\<close>

text \<open>The cog after one tick that observed a closed door at second 100.\<close>

definition after_closed :: monitor where
  "after_closed = run (Monitor_init 1 10 1000) [(door_body False, clock_at 100, ok_edit)]"

subsection \<open>Notions used by the properties of the pager\<close>

text \<open>
  The states \<open>self.emojis\<close> has an entry for, and a history that holds no other. The
  number of pages on natural numbers.
\<close>

definition known_state :: "string \<Rightarrow> bool" where
  "known_state s = (s = ''Open'' \<or> s = ''Closed'')"

definition known_states :: "(int \<times> string) list \<Rightarrow> bool" where
  "known_states h = list_all (\<lambda>r. known_state (snd r)) h"

text \<open>
  The listing the specification asks of a page: one line
  \<open><icon for state> <state label> - <timestamp>\<close> per record, in the order given.
\<close>

definition listing :: "(int \<times> string) list \<Rightarrow> string" where
  "listing rs =
     concat (map (\<lambda>r. case map_of emojis (snd r) of
                          None \<Rightarrow> []
                        | Some emoji \<Rightarrow> history_line emoji (fst r) (snd r)) rs)"

definition pages_nat :: "nat \<Rightarrow> nat \<Rightarrow> nat" where
  "pages_nat L n = L div n + (if L mod n \<noteq> 0 then 1 else 0)"

section \<open>Properties\<close>

subsection \<open>Concrete values\<close>

lemma clock_at_reading [simp]: "clock_at t i = t"
  by (simp add: clock_at_def)

lemma fetch_door_body [simp]: "fetch_door (door_body b) = Inr (PBool b)"
  by (simp add: fetch_door_def door_body_def)

lemma observed_door_body [simp]: "observed (door_body b) = PBool b"
  by (simp add: observed_def)

lemma printed_door_body [simp]: "printed (door_body b) = []"
  by (simp add: printed_def)

lemmas run_simps =
  scenario_def Monitor_init_def tick_def tick_from_def observed_def printed_def
  append_record_def

lemma scenario_state:
  "run (Monitor_init 1 2 3) scenario =
     \<lparr>messages = [], refresh_rate = 1, num_per_page = 2, max_history_len = 3,
      history = [(2, ''Open''), (4, ''Closed''), (5, ''Open'')]\<rparr>"
  by (simp add: run_simps)

lemma two_guilds_eq:
  "two_guilds =
     \<lparr>messages =
        [(1, \<lparr>channel_mention = ''<#10>'', shown = create_status_embed (PBool False) 0\<rparr>),
         (2, \<lparr>channel_mention = ''<#20>'', shown = create_status_embed (PBool False) 0\<rparr>)],
      refresh_rate = 1, num_per_page = 10, max_history_len = 1000, history = []\<rparr>"
  by (simp add: two_guilds_def link_channel_def Monitor_init_def ok_send_def)

lemma two_guilds_fields [simp]:
  "history two_guilds = []" "max_history_len two_guilds = 1000"
  "messages two_guilds =
     [(1, \<lparr>channel_mention = ''<#10>'', shown = create_status_embed (PBool False) 0\<rparr>),
      (2, \<lparr>channel_mention = ''<#20>'', shown = create_status_embed (PBool False) 0\<rparr>)]"
  by (simp_all add: two_guilds_eq)

lemma after_closed_eq:
  "after_closed =
     \<lparr>messages = [], refresh_rate = 1, num_per_page = 10, max_history_len = 1000,
      history = [(100, ''Closed'')]\<rparr>"
  by (simp add: after_closed_def run_simps)

subsection \<open>What a tick does to the history\<close>

lemma history_append_record:
  "history (append_record st r) = trim (max_history_len st) (history st @ [r])"
  by (simp add: append_record_def trim_def Let_def)

lemma max_history_len_append_record [simp]:
  "max_history_len (append_record st r) = max_history_len st"
  by (simp add: append_record_def Let_def)

lemma tick_from_cases:
  "(tr_appended (tick_from st d out clock edit) = [] \<and>
      history (tr_state (tick_from st d out clock edit)) = history st) \<or>
   (\<exists>ts label. m_get d = Inr label \<and>
      tr_appended (tick_from st d out clock edit) = [(ts, label)] \<and>
      history (tr_state (tick_from st d out clock edit)) =
        trim (max_history_len st) (history st @ [(ts, label)]))"
  by (auto simp: tick_from_def history_append_record split: prod.splits option.splits sum.splits)

text \<open>
  A tick leaves the history as it is, or appends one record whose state differs from
  the last one's and trims.
\<close>

lemma tick_cases:
  "(tr_appended (tick st env) = [] \<and> history (tr_state (tick st env)) = history st) \<or>
   (\<exists>ts label. tr_appended (tick st env) = [(ts, label)] \<and>
      (history st = [] \<or> label \<noteq> snd (last (history st))) \<and>
      history (tr_state (tick st env)) =
        trim (max_history_len st) (history st @ [(ts, label)]))"
proof -
  obtain resp clock edit where env: "env = (resp, clock, edit)"
    by (cases env) auto
  show ?thesis
    using tick_from_cases [of st "observed resp" "printed resp" clock edit]
    by (auto simp: tick_def env split: sum.splits)
qed

lemma max_history_len_tick_from [simp]:
  "max_history_len (tr_state (tick_from st d out clock edit)) = max_history_len st"
  by (auto simp: tick_from_def split: prod.splits option.splits sum.splits)

lemma max_history_len_tick [simp]:
  "max_history_len (tr_state (tick st env)) = max_history_len st"
  by (cases env) (auto simp: tick_def split: sum.splits)

lemma max_history_len_run [simp]:
  "max_history_len (run st envs) = max_history_len st"
  by (induction envs arbitrary: st) auto

lemma m_get_known: "m_get d = Inr label \<Longrightarrow> known_state label"
  by (cases d) (auto simp: known_state_def split: if_splits)

lemma known_state_emojis: "known_state s \<longleftrightarrow> map_of emojis s \<noteq> None"
  by (auto simp: known_state_def emojis_def)

lemma known_states_trim: "known_states xs \<Longrightarrow> known_states (trim cap xs)"
  by (auto simp: known_states_def trim_def list_all_iff dest: in_set_dropD)

lemma known_states_tick_from:
  assumes "known_states (history st)"
  shows "known_states (history (tr_state (tick_from st d out clock edit)))"
proof -
  have "known_states (trim cap (history st @ [(ts, label)]))"
    if "m_get d = Inr label" for ts label cap
    using assms m_get_known [OF that]
    by (intro known_states_trim) (simp add: known_states_def)
  then show ?thesis
    using tick_from_cases [of st d out clock edit] assms
    by auto
qed

lemma known_states_tick:
  "known_states (history st) \<Longrightarrow> known_states (history (tr_state (tick st env)))"
  by (cases env) (auto simp: tick_def known_states_tick_from split: sum.splits)

text \<open>Every history the ticks build from the empty one holds known states only.\<close>

lemma known_states_run:
  "known_states (history st) \<Longrightarrow> known_states (history (run st envs))"
  by (induction envs arbitrary: st) (auto simp: known_states_tick)

lemma known_states_init: "known_states (history (Monitor_init rr npp mhl))"
  by (simp add: Monitor_init_def known_states_def)

subsection \<open>The bound on the history\<close>

lemma trim_lastn:
  "length xs \<le> k \<Longrightarrow> trim (int k) (xs @ [r]) = lastn k (xs @ [r])"
  by (cases "length xs = k") (auto simp: trim_def lastn_def)

lemma lastn_lastn_append:
  "lastn k (lastn k xs @ ys) = lastn k (xs @ ys)"
proof (cases "length xs \<le> k")
  case True
  then show ?thesis by (simp add: lastn_def)
next
  case False
  then have "length xs - k + k = length xs" by simp
  then show ?thesis
    using False by (simp add: lastn_def add.commute)
qed

lemma length_lastn: "length (lastn k xs) \<le> k"
  by (auto simp: lastn_def)

lemma lastn_id: "length xs \<le> k \<Longrightarrow> lastn k xs = xs"
  by (auto simp: lastn_def)

lemma run_lastn:
  assumes "length (history st) \<le> k" and "max_history_len st = int k"
  shows "history (run st envs) = lastn k (history st @ appended st envs)"
  using assms
proof (induction envs arbitrary: st)
  case Nil
  then show ?case by (simp add: lastn_id)
next
  case (Cons env envs)
  let ?r = "tick st env"
  have cap: "max_history_len (tr_state ?r) = int k"
    using Cons.prems by simp
  have h: "history (tr_state ?r) = lastn k (history st @ tr_appended ?r)"
    using tick_cases [of st env] Cons.prems
    by (auto simp: lastn_id trim_lastn)
  then have len: "length (history (tr_state ?r)) \<le> k"
    by (simp add: length_lastn)
  have "history (run st (env # envs)) =
          lastn k (history (tr_state ?r) @ appended (tr_state ?r) envs)"
    using Cons.IH [OF len cap] by simp
  also have "\<dots> = lastn k ((history st @ tr_appended ?r) @ appended (tr_state ?r) envs)"
    unfolding h by (rule lastn_lastn_append)
  finally show ?case by simp
qed

text \<open>
  Claim C1. From a state whose history is within \<open>max_history_len\<close> (the empty
  history of a new cog, for a cap that is not negative), after any sequence of ticks,
  whatever they observe and whether or not they raise, the history is within the cap,
  and it is the last \<open>max_history_len\<close> records of what was there followed by what
  the ticks appended, in that order: eviction is from the front.
\<close>

theorem history_bounded_fifo:
  assumes "int (length (history st)) \<le> max_history_len st"
  shows "int (length (history (run st envs))) \<le> max_history_len st \<and>
         history (run st envs) =
           lastn (nat (max_history_len st)) (history st @ appended st envs)"
proof -
  define k where "k = nat (max_history_len st)"
  have cap: "max_history_len st = int k"
    using assms by (simp add: k_def)
  have len: "length (history st) \<le> k"
    using assms by (simp add: k_def)
  have eq: "history (run st envs) = lastn k (history st @ appended st envs)"
    using len cap by (rule run_lastn)
  have "length (history (run st envs)) \<le> k"
    unfolding eq by (rule length_lastn)
  then show ?thesis
    using eq cap by simp
qed

theorem history_bounded_fifo_witness:
  "int (length (history (Monitor_init 1 2 3))) \<le> max_history_len (Monitor_init 1 2 3) \<and>
   appended (Monitor_init 1 2 3) scenario =
     [(1, ''Closed''), (2, ''Open''), (4, ''Closed''), (5, ''Open'')] \<and>
   int (length (history (run (Monitor_init 1 2 3) scenario))) \<le> 3 \<and>
   history (run (Monitor_init 1 2 3) scenario) =
     [(2, ''Open''), (4, ''Closed''), (5, ''Open'')]"
proof -
  have h0: "history (Monitor_init 1 2 3) = []"
    and cap: "max_history_len (Monitor_init 1 2 3) = 3"
    by (simp_all add: Monitor_init_def)
  have pre: "int (length (history (Monitor_init 1 2 3))) \<le> max_history_len (Monitor_init 1 2 3)"
    by (simp add: h0 cap)
  have app: "appended (Monitor_init 1 2 3) scenario =
      [(1, ''Closed''), (2, ''Open''), (4, ''Closed''), (5, ''Open'')]"
    by (simp add: run_simps)
  have "int (length (history (run (Monitor_init 1 2 3) scenario))) \<le> 3 \<and>
      history (run (Monitor_init 1 2 3) scenario) =
        [(2, ''Open''), (4, ''Closed''), (5, ''Open'')]"
    using history_bounded_fifo [OF pre, of scenario]
    by (simp add: h0 cap app lastn_def)
  then show ?thesis
    using pre app by simp
qed

subsection \<open>Adjacent records\<close>

lemma no_adjacent_repeat_snoc:
  "no_adjacent_repeat (xs @ [r]) \<longleftrightarrow>
     no_adjacent_repeat xs \<and> (xs = [] \<or> snd (last xs) \<noteq> snd r)"
  by (induction xs rule: no_adjacent_repeat.induct) auto

lemma no_adjacent_repeat_drop1:
  "no_adjacent_repeat xs \<Longrightarrow> no_adjacent_repeat (drop (Suc 0) xs)"
  by (induction xs rule: no_adjacent_repeat.induct) auto

lemma no_adjacent_repeat_trim:
  "no_adjacent_repeat xs \<Longrightarrow> no_adjacent_repeat (trim cap xs)"
  by (simp add: trim_def no_adjacent_repeat_drop1)

lemma no_adjacent_repeat_tick:
  assumes "no_adjacent_repeat (history st)"
  shows "no_adjacent_repeat (history (tr_state (tick st env)))"
  using tick_cases [of st env] assms
  by (auto simp: no_adjacent_repeat_snoc intro!: no_adjacent_repeat_trim)

lemma no_adjacent_repeat_run:
  "no_adjacent_repeat (history st) \<Longrightarrow> no_adjacent_repeat (history (run st envs))"
  by (induction envs arbitrary: st) (auto simp: no_adjacent_repeat_tick)

text \<open>
  Claim C10. After any sequence of ticks from an empty history, no record of the
  history has the state of the record before it.
\<close>

theorem no_adjacent_equal_states:
  assumes "history st = []"
  shows "no_adjacent_repeat (history (run st envs))"
  using assms by (intro no_adjacent_repeat_run) simp

theorem no_adjacent_equal_states_witness:
  "history (Monitor_init 1 2 3) = [] \<and>
   history (run (Monitor_init 1 2 3) scenario) =
     [(2, ''Open''), (4, ''Closed''), (5, ''Open'')] \<and>
   no_adjacent_repeat (history (run (Monitor_init 1 2 3) scenario))"
proof -
  have pre: "history (Monitor_init 1 2 3) = []"
    by (simp add: Monitor_init_def)
  have h: "history (run (Monitor_init 1 2 3) scenario) =
      [(2, ''Open''), (4, ''Closed''), (5, ''Open'')]"
    by (simp add: run_simps)
  show ?thesis
    using no_adjacent_equal_states [OF pre, of scenario] pre h by simp
qed

subsection \<open>The loop over the linked guilds\<close>

lemma announce_order:
  "announce edit clock d i gs ms = (r, ms', eds) \<Longrightarrow>
   eds = map (\<lambda>j. (gs ! j, create_status_embed d (clock (i + j)))) [0..<length eds] \<and>
   length eds \<le> length gs"
proof (induction gs arbitrary: i ms r ms' eds)
  case Nil
  then show ?case by simp
next
  case (Cons g gs)
  show ?case
  proof (cases "map_of ms g")
    case None
    with Cons.prems show ?thesis by simp
  next
    case (Some msg)
    show ?thesis
    proof (cases "edit msg (create_status_embed d (clock i))")
      case (Inl e)
      with Some Cons.prems show ?thesis by simp
    next
      case (Inr msg')
      obtain r1 ms1 eds1 where
        rec: "announce edit clock d (Suc i) gs (AList.update g msg' ms) = (r1, ms1, eds1)"
        by (metis prod_cases3)
      with Some Inr Cons.prems have eds: "eds = (g, create_status_embed d (clock i)) # eds1"
        by simp
      from Cons.IH [OF rec] have
        ih: "eds1 = map (\<lambda>j. (gs ! j, create_status_embed d (clock (Suc i + j)))) [0..<length eds1]"
        and len: "length eds1 \<le> length gs"
        by auto
      have "eds = map (\<lambda>j. ((g # gs) ! j, create_status_embed d (clock (i + j))))
                    [0..<Suc (length eds1)]"
        unfolding eds map_upt_Suc using ih by simp
      then show ?thesis
        using len eds by simp
    qed
  qed
qed

lemma announce_edits_keys:
  "announce edit clock d i gs ms = (r, ms', eds) \<Longrightarrow> map fst eds = take (length eds) gs"
  by (induction edit clock d i gs ms arbitrary: r ms' eds rule: announce.induct)
     (auto split: option.splits sum.splits prod.splits)

lemma update_keys_present:
  "map_of ms g = Some msg \<Longrightarrow> map fst (AList.update g msg' ms) = map fst ms"
  by (simp add: update_keys weak_map_of_SomeI map_of_eq_None_iff [symmetric] del: map_of_eq_None_iff)

lemma announce_keys:
  "announce edit clock d i gs ms = (r, ms', eds) \<Longrightarrow> map fst ms' = map fst ms"
proof (induction gs arbitrary: i ms r ms' eds)
  case Nil
  then show ?case by simp
next
  case (Cons g gs)
  show ?case
  proof (cases "map_of ms g")
    case None
    with Cons.prems show ?thesis by simp
  next
    case (Some msg)
    show ?thesis
    proof (cases "edit msg (create_status_embed d (clock i))")
      case (Inl e)
      with Some Cons.prems show ?thesis by simp
    next
      case (Inr msg')
      obtain r1 ms1 eds1 where
        rec: "announce edit clock d (Suc i) gs (AList.update g msg' ms) = (r1, ms1, eds1)"
        by (metis prod_cases3)
      with Some Inr Cons.prems have "ms' = ms1"
        by simp
      then show ?thesis
        using Cons.IH [OF rec] update_keys_present [OF Some] by simp
    qed
  qed
qed

lemma announce_complete:
  "announce edit clock d i gs ms = (None, ms', eds) \<Longrightarrow> length eds = length gs"
  by (induction edit clock d i gs ms arbitrary: ms' eds rule: announce.induct)
     (auto split: option.splits sum.splits prod.splits)

lemma announce_untouched:
  "announce edit clock d i gs ms = (r, ms', eds) \<Longrightarrow>
   g \<notin> set (take (length eds) gs) \<Longrightarrow> map_of ms' g = map_of ms g"
  by (induction edit clock d i gs ms arbitrary: r ms' eds rule: announce.induct)
     (auto simp: update_conv' split: option.splits sum.splits prod.splits)

lemma announce_failed:
  "announce edit clock d i gs ms = (Some e, ms', eds) \<Longrightarrow> distinct gs \<Longrightarrow>
   length eds < length gs \<and>
   (case map_of ms (gs ! length eds) of
      None \<Rightarrow> e = KeyError
    | Some msg \<Rightarrow> edit msg (create_status_embed d (clock (i + length eds))) = Inl e)"
proof (induction edit clock d i gs ms arbitrary: ms' eds rule: announce.induct)
  case (1 edit clock d i ms)
  then show ?case by simp
next
  case (2 edit clock d i g gs ms)
  show ?case
  proof (cases "map_of ms g")
    case None
    with "2.prems" show ?thesis by simp
  next
    case (Some msg)
    show ?thesis
    proof (cases "edit msg (create_status_embed d (clock i))")
      case (Inl e')
      with Some "2.prems" show ?thesis by simp
    next
      case (Inr msg')
      obtain r1 ms1 eds1 where
        rec: "announce edit clock d (Suc i) gs (AList.update g msg' ms) = (r1, ms1, eds1)"
        by (metis prod_cases3)
      with Some Inr "2.prems" have eds: "eds = (g, create_status_embed d (clock i)) # eds1"
        and r1: "r1 = Some e"
        by simp_all
      have ih: "length eds1 < length gs \<and>
         (case map_of (AList.update g msg' ms) (gs ! length eds1) of
            None \<Rightarrow> e = KeyError
          | Some msg \<Rightarrow> edit msg (create_status_embed d (clock (Suc i + length eds1))) = Inl e)"
        using "2.IH" [OF Some Inr rec [unfolded r1]] "2.prems" by simp
      then have "gs ! length eds1 \<in> set gs" by simp
      with "2.prems" have "gs ! length eds1 \<noteq> g" by auto
      then show ?thesis
        using ih by (auto simp: eds update_conv' split: option.splits)
    qed
  qed
qed

lemma announce_edited:
  "announce edit clock d i gs ms = (r, ms', eds) \<Longrightarrow> distinct gs \<Longrightarrow> j < length eds \<Longrightarrow>
   \<exists>msg m'. map_of ms (gs ! j) = Some msg \<and>
     edit msg (create_status_embed d (clock (i + j))) = Inr m' \<and>
     map_of ms' (gs ! j) = Some m'"
proof (induction edit clock d i gs ms arbitrary: r ms' eds j rule: announce.induct)
  case (1 edit clock d i ms)
  then show ?case by simp
next
  case (2 edit clock d i g gs ms)
  show ?case
  proof (cases "map_of ms g")
    case None
    with "2.prems" show ?thesis by simp
  next
    case (Some msg)
    show ?thesis
    proof (cases "edit msg (create_status_embed d (clock i))")
      case (Inl e')
      with Some "2.prems" show ?thesis by simp
    next
      case (Inr msg')
      obtain r1 ms1 eds1 where
        rec: "announce edit clock d (Suc i) gs (AList.update g msg' ms) = (r1, ms1, eds1)"
        by (metis prod_cases3)
      with Some Inr "2.prems" have eds: "eds = (g, create_status_embed d (clock i)) # eds1"
        and ms': "ms' = ms1"
        by simp_all
      have notin: "g \<notin> set gs" and dist: "distinct gs"
        using "2.prems" by simp_all
      show ?thesis
      proof (cases j)
        case 0
        have "map_of ms1 g = map_of (AList.update g msg' ms) g"
          using announce_untouched [OF rec, of g] notin by (meson in_set_takeD)
        then show ?thesis
          using 0 Some Inr by (simp add: ms' update_conv')
      next
        case (Suc j')
        then have j': "j' < length eds1"
          using "2.prems" eds by simp
        have "length eds1 \<le> length gs"
          using announce_order [OF rec] by simp
        with j' have "gs ! j' \<in> set gs" by simp
        with notin have ne: "gs ! j' \<noteq> g" by auto
        from "2.IH" [OF Some Inr rec dist j'] obtain msg0 m' where
          "map_of (AList.update g msg' ms) (gs ! j') = Some msg0"
          "edit msg0 (create_status_embed d (clock (Suc i + j'))) = Inr m'"
          "map_of ms1 (gs ! j') = Some m'"
          by blast
        then show ?thesis
          using Suc ne by (simp add: ms' update_conv')
      qed
    qed
  qed
qed

lemma map_of_nth:
  "distinct (map fst xs) \<Longrightarrow> j < length xs \<Longrightarrow> map_of xs (map fst xs ! j) = Some (snd (xs ! j))"
  by (simp add: map_of_eq_Some_iff)

lemma tick_transition:
  assumes "m_get (observed resp) = Inr label"
    and "history st = [] \<or> snd (last (history st)) \<noteq> label"
  shows "tick st (resp, clock, edit) =
           tick_from st (observed resp) (printed resp) clock edit"
  using assms by (auto simp: tick_def)

lemma tick_from_announce:
  assumes "announce edit clock d 0 (map fst (messages st)) (messages st) = (r, ms', eds)"
    and "m_get d = Inr label"
  shows "tr_edits (tick_from st d out clock edit) = eds"
    and "messages (tr_state (tick_from st d out clock edit)) = ms'"
    and "tr_raised (tick_from st d out clock edit) = r"
    and "r = None \<Longrightarrow>
           tr_appended (tick_from st d out clock edit) = [(clock (length (messages st)), label)]"
    and "r \<noteq> None \<Longrightarrow> tr_appended (tick_from st d out clock edit) = [] \<and>
           history (tr_state (tick_from st d out clock edit)) = history st"
  using assms
  by (auto simp: tick_from_def append_record_def Let_def split: option.splits)

lemma tick_from_edits_keys:
  "map fst (tr_edits (tick_from st d out clock edit)) =
     take (length (tr_edits (tick_from st d out clock edit))) (map fst (messages st))"
proof -
  obtain r ms' eds where
    ann: "announce edit clock d 0 (map fst (messages st)) (messages st) = (r, ms', eds)"
    by (metis prod_cases3)
  have "tr_edits (tick_from st d out clock edit) = eds"
    using ann by (auto simp: tick_from_def split: option.splits sum.splits)
  then show ?thesis
    using announce_edits_keys [OF ann] by simp
qed

lemma tick_edits_keys:
  "map fst (tr_edits (tick st env)) =
     take (length (tr_edits (tick st env))) (map fst (messages st))"
proof -
  obtain resp clock edit where env: "env = (resp, clock, edit)"
    by (cases env) auto
  show ?thesis
    using tick_from_edits_keys [of st "observed resp" "printed resp" clock edit]
    by (auto simp: tick_def env split: sum.splits)
qed

text \<open>
  The keys of \<open>self.messages\<close> are distinct, as those of a dict are: a tick leaves the
  keys as they are, and \<open>link_channel\<close> keeps them distinct.
\<close>

lemma keys_tick_from:
  "map fst (messages (tr_state (tick_from st d out clock edit))) = map fst (messages st)"
proof -
  obtain r ms' eds where
    ann: "announce edit clock d 0 (map fst (messages st)) (messages st) = (r, ms', eds)"
    by (metis prod_cases3)
  have "messages (tr_state (tick_from st d out clock edit)) = ms'"
    using ann
    by (auto simp: tick_from_def append_record_def Let_def split: option.splits sum.splits)
  then show ?thesis
    using announce_keys [OF ann] by simp
qed

lemma keys_tick:
  "map fst (messages (tr_state (tick st env))) = map fst (messages st)"
  by (cases env) (auto simp: tick_def keys_tick_from split: sum.splits)

lemma distinct_keys_link_channel:
  "distinct (map fst (messages st)) \<Longrightarrow>
   distinct (map fst (messages (lr_state (link_channel st guild_id channel now send))))"
  by (auto simp: link_channel_def Let_def distinct_update split: channel_arg.splits sum.splits)

subsection \<open>Debounce\<close>

lemma tick_debounced:
  assumes "history st \<noteq> []" and "m_get (observed resp) = Inr (snd (last (history st)))"
  shows "tick st (resp, clock, edit) =
          \<lparr>tr_state = st, tr_raised = None, tr_printed = printed resp,
           tr_edits = [], tr_appended = []\<rparr>"
  using assms by (simp add: tick_def)

lemma last_trim:
  assumes "0 < cap"
  shows "trim cap (h @ [r]) \<noteq> [] \<and> last (trim cap (h @ [r])) = r"
proof (cases "int (length (h @ [r])) > cap")
  case True
  with assms have "h \<noteq> []" by auto
  then show ?thesis
    using True by (cases h) (auto simp: trim_def)
next
  case False
  then show ?thesis by (simp add: trim_def)
qed

lemma tick_from_completed:
  assumes "tr_raised (tick_from st d out clock edit) = None"
  shows "\<exists>label. m_get d = Inr label \<and>
           tr_appended (tick_from st d out clock edit) = [(clock (length (messages st)), label)] \<and>
           history (tr_state (tick_from st d out clock edit)) =
             trim (max_history_len st) (history st @ [(clock (length (messages st)), label)])"
  using assms
  by (auto simp: tick_from_def history_append_record split: prod.splits option.splits sum.splits)

lemma tick_completed_last:
  assumes "tr_raised (tick st (resp, clock, edit)) = None"
    and "m_get (observed resp) = Inr s" and "0 < max_history_len st"
  shows "history (tr_state (tick st (resp, clock, edit))) \<noteq> [] \<and>
         snd (last (history (tr_state (tick st (resp, clock, edit))))) = s"
proof (cases "history st \<noteq> [] \<and> s = snd (last (history st))")
  case True
  then show ?thesis
    using assms by (simp add: tick_def)
next
  case False
  then have eq: "tick st (resp, clock, edit) =
      tick_from st (observed resp) (printed resp) clock edit"
    using assms by (auto simp: tick_def)
  show ?thesis
    using tick_from_completed [of st "observed resp" "printed resp" clock edit] assms
    unfolding eq by (auto simp: last_trim)
qed

lemma tick_appended_if_completed:
  assumes "tr_raised (tick st (resp, clock, edit)) = None"
    and "m_get (observed resp) = Inr s"
    and "history st = [] \<or> snd (last (history st)) \<noteq> s"
  shows "tr_appended (tick st (resp, clock, edit)) = [(clock (length (messages st)), s)]"
proof -
  have eq: "tick st (resp, clock, edit) =
      tick_from st (observed resp) (printed resp) clock edit"
    using assms by (auto simp: tick_def)
  show ?thesis
    using tick_from_completed [of st "observed resp" "printed resp" clock edit] assms
    unfolding eq by auto
qed

text \<open>
  Claim C2, as the code has it. When the history is not empty and the observed state
  is the state of its last record, a tick changes nothing: the state is the same, no
  message is edited, no record is appended, nothing is raised. Hence, for a cap of at
  least one, when a tick that observes a state returns normally, the next tick that
  observes the same state changes nothing: the two ticks together edit each linked
  guild at most once (in the order of the registry) and, when the first was a
  transition, append exactly one record.
\<close>

theorem debounce:
  "(history st \<noteq> [] \<and> m_get (observed resp) = Inr (snd (last (history st))) \<longrightarrow>
      tick st (resp, clock, edit) =
        \<lparr>tr_state = st, tr_raised = None, tr_printed = printed resp,
         tr_edits = [], tr_appended = []\<rparr>) \<and>
   (0 < max_history_len st \<and> m_get (observed resp1) = Inr s \<and>
    m_get (observed resp2) = Inr s \<and>
    tr_raised (tick st (resp1, clock1, edit1)) = None \<longrightarrow>
      tr_state (tick (tr_state (tick st (resp1, clock1, edit1))) (resp2, clock2, edit2)) =
        tr_state (tick st (resp1, clock1, edit1)) \<and>
      tr_raised (tick (tr_state (tick st (resp1, clock1, edit1))) (resp2, clock2, edit2)) = None \<and>
      tr_edits (tick (tr_state (tick st (resp1, clock1, edit1))) (resp2, clock2, edit2)) = [] \<and>
      tr_appended (tick (tr_state (tick st (resp1, clock1, edit1))) (resp2, clock2, edit2)) = [] \<and>
      map fst (tr_edits (tick st (resp1, clock1, edit1)) @
               tr_edits (tick (tr_state (tick st (resp1, clock1, edit1))) (resp2, clock2, edit2))) =
        take (length (tr_edits (tick st (resp1, clock1, edit1)))) (map fst (messages st)) \<and>
      (history st = [] \<or> snd (last (history st)) \<noteq> s \<longrightarrow>
         tr_appended (tick st (resp1, clock1, edit1)) @
         tr_appended (tick (tr_state (tick st (resp1, clock1, edit1))) (resp2, clock2, edit2)) =
           [(clock1 (length (messages st)), s)]))"
proof (intro conjI impI)
  assume "history st \<noteq> [] \<and> m_get (observed resp) = Inr (snd (last (history st)))"
  then show "tick st (resp, clock, edit) =
        \<lparr>tr_state = st, tr_raised = None, tr_printed = printed resp,
         tr_edits = [], tr_appended = []\<rparr>"
    by (simp add: tick_debounced)
next
  assume a: "0 < max_history_len st \<and> m_get (observed resp1) = Inr s \<and>
    m_get (observed resp2) = Inr s \<and>
    tr_raised (tick st (resp1, clock1, edit1)) = None"
  let ?st1 = "tr_state (tick st (resp1, clock1, edit1))"
  have l: "history ?st1 \<noteq> []" "snd (last (history ?st1)) = s"
    using tick_completed_last [of st resp1 clock1 edit1 s] a by auto
  then have second: "tick ?st1 (resp2, clock2, edit2) =
      \<lparr>tr_state = ?st1, tr_raised = None, tr_printed = printed resp2,
       tr_edits = [], tr_appended = []\<rparr>"
    using a by (intro tick_debounced) auto
  show "tr_state (tick ?st1 (resp2, clock2, edit2)) = ?st1"
    and "tr_raised (tick ?st1 (resp2, clock2, edit2)) = None"
    and "tr_edits (tick ?st1 (resp2, clock2, edit2)) = []"
    and "tr_appended (tick ?st1 (resp2, clock2, edit2)) = []"
    by (simp_all add: second)
  show "map fst (tr_edits (tick st (resp1, clock1, edit1)) @
               tr_edits (tick ?st1 (resp2, clock2, edit2))) =
        take (length (tr_edits (tick st (resp1, clock1, edit1)))) (map fst (messages st))"
    using tick_edits_keys [of st "(resp1, clock1, edit1)"] by (simp add: second)
  assume "history st = [] \<or> snd (last (history st)) \<noteq> s"
  then show "tr_appended (tick st (resp1, clock1, edit1)) @
         tr_appended (tick ?st1 (resp2, clock2, edit2)) =
           [(clock1 (length (messages st)), s)]"
    using tick_appended_if_completed [of st resp1 clock1 edit1 s] a
    by (simp add: second)
qed

theorem debounce_witness:
  "0 < max_history_len two_guilds \<and>
   m_get (observed (door_body True)) = Inr ''Open'' \<and>
   history two_guilds = [] \<and>
   tr_raised (tick two_guilds (door_body True, clock_at 5, ok_edit)) = None \<and>
   tr_edits (tick two_guilds (door_body True, clock_at 5, ok_edit)) =
     [(1, create_status_embed (PBool True) 5), (2, create_status_embed (PBool True) 5)] \<and>
   history (tr_state (tick two_guilds (door_body True, clock_at 5, ok_edit))) = [(5, ''Open'')] \<and>
   tick (tr_state (tick two_guilds (door_body True, clock_at 5, ok_edit)))
        (door_body True, clock_at 6, ok_edit) =
     \<lparr>tr_state = tr_state (tick two_guilds (door_body True, clock_at 5, ok_edit)),
      tr_raised = None, tr_printed = [], tr_edits = [], tr_appended = []\<rparr> \<and>
   tr_appended (tick two_guilds (door_body True, clock_at 5, ok_edit)) @
   tr_appended (tick (tr_state (tick two_guilds (door_body True, clock_at 5, ok_edit)))
        (door_body True, clock_at 6, ok_edit)) = [(5, ''Open'')]"
proof -
  let ?r1 = "tick two_guilds (door_body True, clock_at 5, ok_edit)"
  have first: "tr_raised ?r1 = None"
    "tr_edits ?r1 =
       [(1, create_status_embed (PBool True) 5), (2, create_status_embed (PBool True) 5)]"
    "history (tr_state ?r1) = [(5, ''Open'')]"
    by (simp_all add: tick_def tick_from_def append_record_def ok_edit_def)
  have pre: "0 < max_history_len two_guilds" "m_get (observed (door_body True)) = Inr ''Open''"
    "history two_guilds = []"
    by simp_all
  have nonempty: "history (tr_state ?r1) \<noteq> [] \<and>
      m_get (observed (door_body True)) = Inr (snd (last (history (tr_state ?r1))))"
    by (simp add: first)
  have second: "tick (tr_state ?r1) (door_body True, clock_at 6, ok_edit) =
     \<lparr>tr_state = tr_state ?r1, tr_raised = None, tr_printed = [], tr_edits = [],
      tr_appended = []\<rparr>"
    using debounce [of "tr_state ?r1" "door_body True" "clock_at 6" ok_edit] nonempty
    by simp
  have both: "tr_appended ?r1 @
      tr_appended (tick (tr_state ?r1) (door_body True, clock_at 6, ok_edit)) =
        [(clock_at 5 (length (messages two_guilds)), ''Open'')]"
    using debounce [of two_guilds "door_body True" "clock_at 5" ok_edit "door_body True" "''Open''"
        "door_body True" "clock_at 5" ok_edit "clock_at 6" ok_edit] pre first(1)
    by blast
  show ?thesis
    using pre first second both by simp
qed

text \<open>
  The second half of the claim as stated fails where the first tick does not leave the
  observed state as the last record. With two linked guilds and an edit of the second
  message that fails, two ticks in a row that observe an open door both edit the first
  message and append nothing. With a cap of \<open>0\<close> the appended record is trimmed away
  at once, and two ticks in a row that observe an open door both append.
\<close>

theorem same_state_announced_twice:
  "m_get (observed (door_body True)) = Inr ''Open'' \<and>
   tr_raised (tick two_guilds (door_body True, clock_at 5, edit_second_deleted)) =
     Some HTTPException \<and>
   tr_edits (tick two_guilds (door_body True, clock_at 5, edit_second_deleted)) =
     [(1, create_status_embed (PBool True) 5)] \<and>
   tr_appended (tick two_guilds (door_body True, clock_at 5, edit_second_deleted)) = [] \<and>
   tr_edits (tick (tr_state (tick two_guilds (door_body True, clock_at 5, edit_second_deleted)))
      (door_body True, clock_at 6, edit_second_deleted)) =
     [(1, create_status_embed (PBool True) 6)] \<and>
   tr_appended (tick (tr_state (tick two_guilds (door_body True, clock_at 5, edit_second_deleted)))
      (door_body True, clock_at 6, edit_second_deleted)) = [] \<and>
   max_history_len (Monitor_init 1 10 0) = 0 \<and>
   tr_raised (tick (Monitor_init 1 10 0) (door_body True, clock_at 5, ok_edit)) = None \<and>
   tr_appended (tick (Monitor_init 1 10 0) (door_body True, clock_at 5, ok_edit)) =
     [(5, ''Open'')] \<and>
   tr_appended (tick (tr_state (tick (Monitor_init 1 10 0) (door_body True, clock_at 5, ok_edit)))
      (door_body True, clock_at 6, ok_edit)) = [(6, ''Open'')]"
proof -
  let ?r1 = "tick two_guilds (door_body True, clock_at 5, edit_second_deleted)"
  have st1: "tr_state ?r1 =
      two_guilds\<lparr>messages :=
        [(1, \<lparr>channel_mention = ''<#10>'', shown = create_status_embed (PBool True) 5\<rparr>),
         (2, \<lparr>channel_mention = ''<#20>'', shown = create_status_embed (PBool False) 0\<rparr>)]\<rparr>"
    by (simp add: tick_def tick_from_def edit_second_deleted_def)
  have first: "tr_raised ?r1 = Some HTTPException"
    "tr_edits ?r1 = [(1, create_status_embed (PBool True) 5)]"
    "tr_appended ?r1 = []"
    by (simp_all add: tick_def tick_from_def edit_second_deleted_def)
  have second:
    "tr_edits (tick (tr_state ?r1) (door_body True, clock_at 6, edit_second_deleted)) =
       [(1, create_status_embed (PBool True) 6)]"
    "tr_appended (tick (tr_state ?r1) (door_body True, clock_at 6, edit_second_deleted)) = []"
    unfolding st1 by (simp_all add: tick_def tick_from_def edit_second_deleted_def)
  have zero: "max_history_len (Monitor_init 1 10 0) = 0"
    "tr_raised (tick (Monitor_init 1 10 0) (door_body True, clock_at 5, ok_edit)) = None"
    "tr_appended (tick (Monitor_init 1 10 0) (door_body True, clock_at 5, ok_edit)) =
       [(5, ''Open'')]"
    "tr_appended (tick (tr_state (tick (Monitor_init 1 10 0) (door_body True, clock_at 5, ok_edit)))
       (door_body True, clock_at 6, ok_edit)) = [(6, ''Open'')]"
    by (simp_all add: Monitor_init_def tick_def tick_from_def append_record_def)
  show ?thesis
    using first second zero by simp
qed

subsection \<open>Failures of the fetch\<close>

text \<open>The failures the \<open>try\<close> catches, by kind.\<close>

lemma fetch_failures:
  "fetch_door (Raised x) = Inl x"
  "fetch_door Undecodable = Inl JSONDecodeError"
  "map_of kvs ''door'' = None \<Longrightarrow> fetch_door (Decoded (PDict kvs)) = Inl KeyError"
  "fetch_door (Decoded (PDict [(''door'', PList [])])) = Inl IndexError"
  "map_of kvs ''open'' = None \<Longrightarrow>
     fetch_door (Decoded (PDict [(''door'', PList [PDict kvs])])) = Inl KeyError"
  by (simp_all add: fetch_door_def)

text \<open>
  What the \<open>try\<close> catches is turned into Closed. When the request, the decoding of
  the body or the extraction of \<open>door[0].open\<close> raises, the tick is the tick that
  observes \<open>false\<close>, but for the line it prints: the same state, the same edits with
  the same embeds, the same appended record, the same outcome. The tick that observes
  \<open>false\<close> prints nothing.
\<close>

theorem fetch_failure_is_closed:
  assumes "fetch_door resp = Inl e"
  shows "tick st (resp, clock, edit) =
           (tick st (door_body False, clock, edit))\<lparr>tr_printed := [e]\<rparr> \<and>
         tr_printed (tick st (door_body False, clock, edit)) = []"
  using assms
  by (auto simp: tick_def tick_from_def observed_def printed_def
           split: prod.splits option.splits sum.splits)

theorem fetch_failure_is_closed_witness:
  "fetch_door (Raised Timeout) = Inl Timeout \<and>
   tick after_closed (Raised Timeout, clock_at 101, ok_edit) =
     \<lparr>tr_state = after_closed, tr_raised = None, tr_printed = [Timeout],
      tr_edits = [], tr_appended = []\<rparr> \<and>
   fetch_door Undecodable = Inl JSONDecodeError \<and>
   tick two_guilds (Undecodable, clock_at 5, ok_edit) =
     (tick two_guilds (door_body False, clock_at 5, ok_edit))\<lparr>tr_printed := [JSONDecodeError]\<rparr> \<and>
   tr_edits (tick two_guilds (Undecodable, clock_at 5, ok_edit)) =
     [(1, create_status_embed (PBool False) 5), (2, create_status_embed (PBool False) 5)] \<and>
   tr_appended (tick two_guilds (Undecodable, clock_at 5, ok_edit)) = [(5, ''Closed'')] \<and>
   fetch_door (Decoded (PDict [(''door'', PList [PDict []])])) = Inl KeyError \<and>
   tick after_closed (Decoded (PDict [(''door'', PList [PDict []])]), clock_at 101, ok_edit) =
     \<lparr>tr_state = after_closed, tr_raised = None, tr_printed = [KeyError],
      tr_edits = [], tr_appended = []\<rparr>"
proof -
  have f1: "fetch_door (Raised Timeout) = Inl Timeout"
    and f2: "fetch_door Undecodable = Inl JSONDecodeError"
    and f3: "fetch_door (Decoded (PDict [(''door'', PList [PDict []])])) = Inl KeyError"
    by (simp_all add: fetch_door_def)
  have closed1: "tick after_closed (door_body False, clock_at 101, ok_edit) =
     \<lparr>tr_state = after_closed, tr_raised = None, tr_printed = [],
      tr_edits = [], tr_appended = []\<rparr>"
    by (simp add: after_closed_eq tick_def)
  have closed2:
    "tr_edits (tick two_guilds (door_body False, clock_at 5, ok_edit)) =
       [(1, create_status_embed (PBool False) 5), (2, create_status_embed (PBool False) 5)]"
    "tr_appended (tick two_guilds (door_body False, clock_at 5, ok_edit)) = [(5, ''Closed'')]"
    by (simp_all add: tick_def tick_from_def ok_edit_def)
  show ?thesis
    using fetch_failure_is_closed [OF f1, of after_closed "clock_at 101" ok_edit]
      fetch_failure_is_closed [OF f2, of two_guilds "clock_at 5" ok_edit]
      fetch_failure_is_closed [OF f3, of after_closed "clock_at 101" ok_edit]
      f1 f2 f3 closed1 closed2
    by simp
qed

text \<open>
  Claim C7 fails on the code for a malformed body that decodes: when the value of
  \<open>open\<close> is neither a boolean nor \<open>0\<close> or \<open>1\<close>, nothing is raised inside the
  \<open>try\<close>, \<open>door_open\<close> is that value, and the lookup \<open>m[door_open]\<close>, which is
  outside the \<open>try\<close>, raises \<open>KeyError\<close> out of the tick. For \<open>"yes"\<close> and an empty
  history both linked guilds are first edited to the view of an open door (the string
  is truthy) and no record is appended, where the tick that observes \<open>false\<close> edits
  them to the closed view, appends Closed and returns. For \<open>null\<close> after a Closed
  record the tick raises at line 97, where the tick that observes \<open>false\<close> returns.
\<close>

theorem non_boolean_open_is_not_closed:
  "fetch_door (Decoded (PDict [(''door'', PList [PDict [(''open'', PStr ''yes'')]])])) =
     Inr (PStr ''yes'') \<and>
   tr_raised (tick two_guilds
     (Decoded (PDict [(''door'', PList [PDict [(''open'', PStr ''yes'')]])]), clock_at 5, ok_edit)) =
     Some KeyError \<and>
   tr_printed (tick two_guilds
     (Decoded (PDict [(''door'', PList [PDict [(''open'', PStr ''yes'')]])]), clock_at 5, ok_edit)) =
     [] \<and>
   tr_edits (tick two_guilds
     (Decoded (PDict [(''door'', PList [PDict [(''open'', PStr ''yes'')]])]), clock_at 5, ok_edit)) =
     [(1, create_status_embed (PBool True) 5), (2, create_status_embed (PBool True) 5)] \<and>
   tr_appended (tick two_guilds
     (Decoded (PDict [(''door'', PList [PDict [(''open'', PStr ''yes'')]])]), clock_at 5, ok_edit)) =
     [] \<and>
   tr_raised (tick two_guilds (door_body False, clock_at 5, ok_edit)) = None \<and>
   tr_edits (tick two_guilds (door_body False, clock_at 5, ok_edit)) =
     [(1, create_status_embed (PBool False) 5), (2, create_status_embed (PBool False) 5)] \<and>
   tr_appended (tick two_guilds (door_body False, clock_at 5, ok_edit)) = [(5, ''Closed'')] \<and>
   color (create_status_embed (PBool True) 5) = Some Green \<and>
   color (create_status_embed (PBool False) 5) = Some Red \<and>
   tick after_closed
     (Decoded (PDict [(''door'', PList [PDict [(''open'', PNone)]])]), clock_at 101, ok_edit) =
     \<lparr>tr_state = after_closed, tr_raised = Some KeyError, tr_printed = [],
      tr_edits = [], tr_appended = []\<rparr> \<and>
   tr_raised (tick after_closed (door_body False, clock_at 101, ok_edit)) = None"
proof -
  have yes: "fetch_door (Decoded (PDict [(''door'', PList [PDict [(''open'', PStr ''yes'')]])])) =
      Inr (PStr ''yes'')"
    and none: "fetch_door (Decoded (PDict [(''door'', PList [PDict [(''open'', PNone)]])])) =
      Inr PNone"
    by (simp_all add: fetch_door_def)
  have view: "create_status_embed (PStr ''yes'') 5 = create_status_embed (PBool True) 5"
    "color (create_status_embed (PBool True) 5) = Some Green"
    "color (create_status_embed (PBool False) 5) = Some Red"
    by (simp_all add: create_status_embed_def)
  have bad: "tr_raised (tick two_guilds
       (Decoded (PDict [(''door'', PList [PDict [(''open'', PStr ''yes'')]])]), clock_at 5, ok_edit)) =
       Some KeyError"
    "tr_printed (tick two_guilds
       (Decoded (PDict [(''door'', PList [PDict [(''open'', PStr ''yes'')]])]), clock_at 5, ok_edit)) =
       []"
    "tr_edits (tick two_guilds
       (Decoded (PDict [(''door'', PList [PDict [(''open'', PStr ''yes'')]])]), clock_at 5, ok_edit)) =
       [(1, create_status_embed (PBool True) 5), (2, create_status_embed (PBool True) 5)]"
    "tr_appended (tick two_guilds
       (Decoded (PDict [(''door'', PList [PDict [(''open'', PStr ''yes'')]])]), clock_at 5, ok_edit)) =
       []"
    by (simp_all add: tick_def tick_from_def observed_def printed_def yes view ok_edit_def)
  have closed: "tr_raised (tick two_guilds (door_body False, clock_at 5, ok_edit)) = None"
    "tr_edits (tick two_guilds (door_body False, clock_at 5, ok_edit)) =
       [(1, create_status_embed (PBool False) 5), (2, create_status_embed (PBool False) 5)]"
    "tr_appended (tick two_guilds (door_body False, clock_at 5, ok_edit)) = [(5, ''Closed'')]"
    by (simp_all add: tick_def tick_from_def ok_edit_def)
  have null: "tick after_closed
       (Decoded (PDict [(''door'', PList [PDict [(''open'', PNone)]])]), clock_at 101, ok_edit) =
       \<lparr>tr_state = after_closed, tr_raised = Some KeyError, tr_printed = [],
        tr_edits = [], tr_appended = []\<rparr>"
    "tr_raised (tick after_closed (door_body False, clock_at 101, ok_edit)) = None"
    by (simp_all add: after_closed_eq tick_def observed_def printed_def none)
  show ?thesis
    using yes view(2,3) bad closed null by simp
qed

subsection \<open>A failing edit\<close>

text \<open>
  Claim C5, as the code has it. In a tick that announces a transition the linked
  guilds are edited one after the other, in the order of the registry. The first edit
  that fails ends the tick: the guilds before it carry their new message, the failing
  guild and the guilds after it keep the message they had, no record is appended, the
  history is unchanged and the exception leaves the tick. When no edit fails, every
  guild is edited and the record is appended.
\<close>

theorem announcements_stop_at_first_failure:
  assumes "distinct (map fst (messages st))"
    and "m_get (observed resp) = Inr label"
    and "history st = [] \<or> snd (last (history st)) \<noteq> label"
    and "tick st (resp, clock, edit) = res"
  shows "tr_edits res =
           map (\<lambda>j. (fst (messages st ! j), create_status_embed (observed resp) (clock j)))
             [0..<length (tr_edits res)] \<and>
         length (tr_edits res) \<le> length (messages st) \<and>
         (\<forall>j<length (tr_edits res). \<exists>m'.
            edit (snd (messages st ! j)) (create_status_embed (observed resp) (clock j)) = Inr m' \<and>
            map_of (messages (tr_state res)) (fst (messages st ! j)) = Some m') \<and>
         (\<forall>g. g \<notin> fst ` set (tr_edits res) \<longrightarrow>
            map_of (messages (tr_state res)) g = map_of (messages st) g) \<and>
         (tr_raised res = None \<longrightarrow>
            length (tr_edits res) = length (messages st) \<and>
            tr_appended res = [(clock (length (messages st)), label)]) \<and>
         (\<forall>e. tr_raised res = Some e \<longrightarrow>
            length (tr_edits res) < length (messages st) \<and>
            edit (snd (messages st ! length (tr_edits res)))
              (create_status_embed (observed resp) (clock (length (tr_edits res)))) = Inl e \<and>
            tr_appended res = [] \<and>
            history (tr_state res) = history st)"
proof -
  let ?d = "observed resp"
  let ?gs = "map fst (messages st)"
  obtain r ms' eds where
    ann: "announce edit clock ?d 0 ?gs (messages st) = (r, ms', eds)"
    by (metis prod_cases3)
  have res: "res = tick_from st ?d (printed resp) clock edit"
    using tick_transition [OF assms(2,3)] assms(4) by simp
  note tf = tick_from_announce [OF ann assms(2), of "printed resp", folded res]
  have order: "eds = map (\<lambda>j. (?gs ! j, create_status_embed ?d (clock (0 + j)))) [0..<length eds]"
    and len: "length eds \<le> length ?gs"
    using announce_order [OF ann] by auto
  have nth: "?gs ! j = fst (messages st ! j)" if "j < length (messages st)" for j
    using that by simp
  have look: "map_of (messages st) (?gs ! j) = Some (snd (messages st ! j))"
    if "j < length (messages st)" for j
    using map_of_nth [OF assms(1) that] .
  have c1: "tr_edits res =
           map (\<lambda>j. (fst (messages st ! j), create_status_embed ?d (clock j)))
             [0..<length (tr_edits res)]"
  proof -
    have "map (\<lambda>j. (?gs ! j, create_status_embed ?d (clock (0 + j)))) [0..<length eds] =
          map (\<lambda>j. (fst (messages st ! j), create_status_embed ?d (clock j))) [0..<length eds]"
      using len by (intro map_cong) auto
    with order show ?thesis
      by (simp add: tf(1))
  qed
  have c2: "length (tr_edits res) \<le> length (messages st)"
    using len by (simp add: tf(1))
  have c3: "\<exists>m'. edit (snd (messages st ! j)) (create_status_embed ?d (clock j)) = Inr m' \<and>
            map_of (messages (tr_state res)) (fst (messages st ! j)) = Some m'"
    if "j < length (tr_edits res)" for j
  proof -
    have j: "j < length eds" "j < length (messages st)"
      using that len by (simp_all add: tf(1))
    from announce_edited [OF ann _ j(1)] assms(1) obtain msg m' where
      "map_of (messages st) (?gs ! j) = Some msg"
      "edit msg (create_status_embed ?d (clock (0 + j))) = Inr m'"
      "map_of ms' (?gs ! j) = Some m'"
      by blast
    then show ?thesis
      using look [OF j(2)] nth [OF j(2)] by (auto simp: tf(2))
  qed
  have c4: "map_of (messages (tr_state res)) g = map_of (messages st) g"
    if "g \<notin> fst ` set (tr_edits res)" for g
  proof -
    have "map fst eds = take (length eds) ?gs"
      using ann by (rule announce_edits_keys)
    then have "g \<notin> set (take (length eds) ?gs)"
      using that by (metis list.set_map tf(1))
    then show ?thesis
      using announce_untouched [OF ann] by (simp add: tf(2))
  qed
  have c5: "length (tr_edits res) = length (messages st) \<and>
            tr_appended res = [(clock (length (messages st)), label)]"
    if "tr_raised res = None"
  proof -
    have r: "r = None" using that by (simp add: tf(3))
    then show ?thesis
      using announce_complete [OF ann [unfolded r]] tf(4) by (simp add: tf(1))
  qed
  have c6: "length (tr_edits res) < length (messages st) \<and>
            edit (snd (messages st ! length (tr_edits res)))
              (create_status_embed ?d (clock (length (tr_edits res)))) = Inl e \<and>
            tr_appended res = [] \<and> history (tr_state res) = history st"
    if "tr_raised res = Some e" for e
  proof -
    have r: "r = Some e" using that by (simp add: tf(3))
    from announce_failed [OF ann [unfolded r]] assms(1)
    have lt: "length eds < length (messages st)"
      and f: "(case map_of (messages st) (?gs ! length eds) of
            None \<Rightarrow> e = KeyError
          | Some msg \<Rightarrow> edit msg (create_status_embed ?d (clock (0 + length eds))) = Inl e)"
      by auto
    show ?thesis
      using lt f look [OF lt] tf(5) r by (simp add: tf(1))
  qed
  show ?thesis
    using c1 c2 c3 c4 c5 c6 by blast
qed

theorem announcements_stop_at_first_failure_witness:
  "distinct (map fst (messages two_guilds)) \<and>
   m_get (observed (door_body True)) = Inr ''Open'' \<and>
   history two_guilds = [] \<and>
   tr_raised (tick two_guilds (door_body True, clock_at 5, edit_second_deleted)) =
     Some HTTPException \<and>
   tr_edits (tick two_guilds (door_body True, clock_at 5, edit_second_deleted)) =
     [(1, create_status_embed (PBool True) 5)] \<and>
   map_of (messages (tr_state (tick two_guilds (door_body True, clock_at 5, edit_second_deleted)))) 2 =
     map_of (messages two_guilds) 2 \<and>
   tr_appended (tick two_guilds (door_body True, clock_at 5, edit_second_deleted)) = [] \<and>
   history (tr_state (tick two_guilds (door_body True, clock_at 5, edit_second_deleted))) = []"
proof -
  let ?res = "tick two_guilds (door_body True, clock_at 5, edit_second_deleted)"
  have pre: "distinct (map fst (messages two_guilds))"
    "m_get (observed (door_body True)) = Inr ''Open''"
    "history two_guilds = []"
    by simp_all
  have pre3: "history two_guilds = [] \<or> snd (last (history two_guilds)) \<noteq> ''Open''"
    by simp
  have ev: "tr_raised ?res = Some HTTPException"
    "tr_edits ?res = [(1, create_status_embed (PBool True) 5)]"
    by (simp_all add: tick_def tick_from_def edit_second_deleted_def)
  note main = announcements_stop_at_first_failure [OF pre(1,2) pre3 refl, of "clock_at 5" edit_second_deleted]
  have untouched: "map_of (messages (tr_state ?res)) 2 = map_of (messages two_guilds) 2"
    using main ev(2) by simp
  have stopped: "tr_appended ?res = [] \<and> history (tr_state ?res) = []"
    using main ev(1) pre(3) by simp
  show ?thesis
    using pre ev untouched stopped by simp
qed

text \<open>
  The claim as stated fails: with two linked guilds, when the edit of the first
  message fails, the second message, whose edit would succeed, is not edited, and no
  record is appended.
\<close>

theorem failure_stops_remaining_destinations:
  "tr_raised (tick two_guilds (door_body True, clock_at 5, edit_first_deleted)) = Some HTTPException \<and>
   tr_edits (tick two_guilds (door_body True, clock_at 5, edit_first_deleted)) = [] \<and>
   tr_appended (tick two_guilds (door_body True, clock_at 5, edit_first_deleted)) = [] \<and>
   tr_state (tick two_guilds (door_body True, clock_at 5, edit_first_deleted)) = two_guilds \<and>
   map_of (messages two_guilds) 2 =
     Some \<lparr>channel_mention = ''<#20>'', shown = create_status_embed (PBool False) 0\<rparr> \<and>
   edit_first_deleted
     \<lparr>channel_mention = ''<#20>'', shown = create_status_embed (PBool False) 0\<rparr>
     (create_status_embed (PBool True) 5) =
     Inr \<lparr>channel_mention = ''<#20>'', shown = create_status_embed (PBool True) 5\<rparr>"
  by (simp add: two_guilds_eq tick_def tick_from_def observed_def printed_def
        edit_first_deleted_def)

subsection \<open>Linking\<close>

text \<open>
  Claim C8. \<open>link_channel\<close> with a name that resolved to no channel replies with a
  text that names it and leaves the cog, and so the registry, as it was.
\<close>

theorem link_not_found_keeps_registry:
  "lr_state (link_channel st guild_id (NotFound name) now send) = st \<and>
   messages (lr_state (link_channel st guild_id (NotFound name) now send)) = messages st \<and>
   lr_raised (link_channel st guild_id (NotFound name) now send) = None \<and>
   lr_replies (link_channel st guild_id (NotFound name) now send) =
     [''Sorry, couldn't find the channel '' @ name @
      ''. Please try again, and make sure there aren't any typos.'']"
  by (simp add: link_channel_def)

theorem link_not_found_keeps_registry_witness:
  "lr_state (link_channel two_guilds 1 (NotFound ''announcments'') 9 ok_send) = two_guilds \<and>
   lr_replies (link_channel two_guilds 1 (NotFound ''announcments'') 9 ok_send) =
     [''Sorry, couldn't find the channel announcments. Please try again, and make sure there aren't any typos.'']"
  using link_not_found_keeps_registry [of two_guilds 1 "''announcments''" 9 ok_send]
  by simp

text \<open>What \<open>link_channel\<close> does with a channel: the value it renders is the label of
  the last record, a string, or \<open>False\<close>.\<close>

lemma link_channel_found:
  assumes "send ch (create_status_embed
                     (if history st \<noteq> [] then PStr (snd (last (history st))) else PBool False)
                     now) = Inr msg"
  shows "link_channel st guild_id (Found ch) now send =
           \<lparr>lr_state = st\<lparr>messages := AList.update guild_id msg (messages st)\<rparr>,
            lr_raised = None,
            lr_replies = [''Now using '' @ mention ch @ '' as the place to send announcements'']\<rparr>"
    and "map_of (messages (lr_state (link_channel st guild_id (Found ch) now send))) guild_id =
           Some msg"
  using assms by (simp_all add: link_channel_def update_conv')

lemma create_status_embed_label:
  "label = ''Open'' \<or> label = ''Closed'' \<Longrightarrow>
   create_status_embed (PStr label) now = create_status_embed (PBool True) now"
  by (auto simp: create_status_embed_def)

text \<open>
  So whenever the history is not empty and holds known states, whatever the last one
  is, the view that \<open>link_channel\<close> sends is the view of an open door.
\<close>

lemma link_channel_renders_open:
  assumes "history st \<noteq> []" and "known_states (history st)"
  shows "create_status_embed
           (if history st \<noteq> [] then PStr (snd (last (history st))) else PBool False) now =
         create_status_embed (PBool True) now"
proof -
  have "last (history st) \<in> set (history st)"
    using assms(1) by simp
  then have "known_state (snd (last (history st)))"
    using assms(2) by (simp add: known_states_def list_all_iff)
  then show ?thesis
    using assms(1) by (simp add: known_state_def create_status_embed_label)
qed

text \<open>
  Claim C4 fails on the code when the last record is Closed: \<open>link_channel\<close> passes
  the label of the record, a non-empty string, where \<open>create_status_embed\<close> tests a
  truth value, so the view that is sent and stored is the one of an open door.
\<close>

theorem link_after_closed_shows_open:
  "history after_closed = [(100, ''Closed'')] \<and>
   link_channel after_closed 7 (Found \<lparr>mention = ''<#42>''\<rparr>) 200 ok_send =
     \<lparr>lr_state = after_closed\<lparr>messages :=
        [(7, \<lparr>channel_mention = ''<#42>'', shown = create_status_embed (PBool True) 200\<rparr>)]\<rparr>,
      lr_raised = None,
      lr_replies = [''Now using <#42> as the place to send announcements'']\<rparr> \<and>
   create_status_embed (PBool True) 200 =
     \<lparr>title = ''CS Club Door Status'', description = ''MQH 227 is now open - <t:200>'',
      color = Some Green, thumbnail = Some ''attachment://logo.png'', footer = None\<rparr> \<and>
   create_status_embed (PBool True) 200 \<noteq> create_status_embed (PBool False) 200"
proof -
  have s: "str_int 200 = ''200''"
    by code_simp
  show ?thesis
    by (simp add: after_closed_eq link_channel_def ok_send_def create_status_embed_def s)
qed

subsection \<open>The pager\<close>

lemma rev_window:
  fixes xs :: "'a list" and n p :: nat
  shows "rev (take ((length xs - p * n) - (length xs - (p + 1) * n))
                (drop (length xs - (p + 1) * n) xs)) =
         take n (drop (p * n) (rev xs))"
proof -
  let ?L = "length xs"
  consider (full) "(p + 1) * n \<le> ?L" | (part) "p * n \<le> ?L" "?L < (p + 1) * n" | (none) "?L < p * n"
    by linarith
  then show ?thesis
  proof cases
    case full
    then have "?L - p * n - (?L - (p + 1) * n) = n" "?L - (?L - (p + 1) * n) = (p + 1) * n"
      by auto
    then show ?thesis
      by (simp add: rev_take rev_drop drop_take)
  next
    case part
    then show ?thesis
      by (simp add: rev_take rev_drop drop_take)
  next
    case none
    then show ?thesis
      by simp
  qed
qed

lemma concat_pages:
  "concat (map (\<lambda>p. take n (drop (p * n) ys)) [0..<T]) = take (T * n) ys"
proof (induction T)
  case 0
  then show ?case by simp
next
  case (Suc T)
  have "take (T * n) ys @ take n (drop (T * n) ys) = take (T * n + n) ys"
    by (simp add: take_add)
  then show ?case
    using Suc by (simp add: add.commute)
qed

lemma clip_nat: "max (int L - int k) 0 = int (L - k)"
  by auto

lemma page_records_window_nat:
  assumes "num_per_page st = int n" and "0 < n"
  shows "page_records st (int p) = take n (drop (p * n) (rev (history st)))"
proof -
  let ?xs = "history st"
  let ?L = "length ?xs"
  have start: "- (int p + 1) * int n < 0"
    using assms(2) by (simp add: mult_less_0_iff)
  have s: "max (- (int p + 1) * int n + int ?L) 0 = int (?L - (p + 1) * n)"
    using clip_nat [of ?L "(p + 1) * n"] by (simp add: algebra_simps)
  show ?thesis
  proof (cases "p = 0")
    case True
    have "page_records st (int p) = rev (take (?L - (?L - n)) (drop (?L - n) ?xs))"
      using start s True assms(2)
      by (simp add: page_records_def py_slice_def assms(1) Let_def nat_diff_distrib' del: of_nat_diff)
    also have "\<dots> = take n (drop (0 * n) (rev ?xs))"
      using rev_window [of ?xs 0 n] by simp
    finally show ?thesis
      using True by simp
  next
    case False
    then have stop: "- int p * int n < 0"
      using assms(2) by (simp add: mult_less_0_iff)
    have e: "max (- int p * int n + int ?L) 0 = int (?L - p * n)"
      using clip_nat [of ?L "p * n"] by (simp add: algebra_simps)
    have "page_records st (int p) =
        rev (take ((?L - p * n) - (?L - (p + 1) * n)) (drop (?L - (p + 1) * n) ?xs))"
      using start stop False s e
      by (simp add: page_records_def py_slice_def assms(1) Let_def nat_diff_distrib' del: of_nat_diff)
    then show ?thesis
      by (simp only: rev_window)
  qed
qed

lemma page_records_window:
  assumes "1 \<le> num_per_page st" and "0 \<le> p"
  shows "page_records st p =
           take (nat (num_per_page st)) (drop (nat p * nat (num_per_page st)) (rev (history st)))"
  using page_records_window_nat [of st "nat (num_per_page st)" "nat p"] assms by simp

lemma pages_nat_covers: "0 < n \<Longrightarrow> L \<le> pages_nat L n * n"
proof -
  assume n: "0 < n"
  have split: "L = (L div n) * n + L mod n" by simp
  have "L mod n < n" using n by simp
  then have "L mod n \<le> (if L mod n \<noteq> 0 then 1 else 0) * n"
    by auto
  then have "(L div n) * n + L mod n \<le> (L div n) * n + (if L mod n \<noteq> 0 then 1 else 0) * n"
    by (rule add_left_mono)
  then show ?thesis
    using split by (simp add: pages_nat_def add_mult_distrib)
qed

lemma get_total_pages_nat:
  assumes "num_per_page st = int n" and "0 < n"
  shows "get_total_pages st = Inr (int (pages_nat (length (history st)) n))"
proof -
  let ?L = "length (history st)"
  have m: "int ?L mod int n = int (?L mod n)" and d: "int ?L div int n = int (?L div n)"
    by (simp_all add: zmod_int zdiv_int)
  have "int ?L div int n + (if int ?L mod int n \<noteq> 0 then 1 else 0) =
      int (?L div n + (if ?L mod n \<noteq> 0 then 1 else 0))"
    unfolding m d by simp
  then show ?thesis
    using assms(2) by (simp add: get_total_pages_def assms(1) pages_nat_def)
qed

lemma get_total_pages_ceiling:
  assumes "1 \<le> num_per_page st"
  shows "get_total_pages st =
           Inr \<lceil>real (length (history st)) / real_of_int (num_per_page st)\<rceil>"
proof -
  let ?L = "int (length (history st))"
  let ?n = "num_per_page st"
  have "\<lceil>real_of_int ?L / real_of_int ?n\<rceil> = - (- ?L div ?n)"
    by (rule ceiling_divide_eq_div)
  also have "\<dots> = ?L div ?n + (if ?L mod ?n \<noteq> 0 then 1 else 0)"
    using assms by (simp add: zdiv_zminus1_eq_if)
  finally show ?thesis
    using assms by (simp add: get_total_pages_def)
qed

lemma pages_concat:
  assumes "1 \<le> num_per_page st" and "get_total_pages st = Inr pages"
  shows "concat (map (\<lambda>p. page_records st (int p)) [0..<nat pages]) = rev (history st)"
proof -
  define n where "n = nat (num_per_page st)"
  have n: "num_per_page st = int n" "0 < n"
    using assms(1) by (simp_all add: n_def)
  have pages: "nat pages = pages_nat (length (history st)) n"
    using get_total_pages_nat [OF n] assms(2) by simp
  have "concat (map (\<lambda>p. page_records st (int p)) [0..<nat pages]) =
        concat (map (\<lambda>p. take n (drop (p * n) (rev (history st)))) [0..<nat pages])"
    by (simp add: page_records_window_nat [OF n])
  also have "\<dots> = take (nat pages * n) (rev (history st))"
    by (rule concat_pages)
  also have "\<dots> = rev (history st)"
    using pages_nat_covers [OF n(2), of "length (history st)"] by (simp add: pages)
  finally show ?thesis .
qed

lemma page_records_beyond:
  assumes "1 \<le> num_per_page st" and "get_total_pages st = Inr pages" and "pages \<le> p"
  shows "page_records st p = []"
proof -
  define n where "n = nat (num_per_page st)"
  have n: "num_per_page st = int n" "0 < n"
    using assms(1) by (simp_all add: n_def)
  have pages: "pages = int (pages_nat (length (history st)) n)"
    using get_total_pages_nat [OF n] assms(2) by simp
  then have p: "0 \<le> p" "pages_nat (length (history st)) n \<le> nat p"
    using assms(3) by simp_all
  have "length (history st) \<le> pages_nat (length (history st)) n * n"
    using n(2) by (rule pages_nat_covers)
  also have "\<dots> \<le> nat p * n"
    using p(2) by simp
  finally have "length (rev (history st)) \<le> nat p * n"
    by simp
  then show ?thesis
    using page_records_window_nat [OF n, of "nat p"] p(1) by simp
qed

lemma describe_known:
  "known_states rs \<Longrightarrow> \<exists>d. describe acc rs = Inr d"
proof (induction rs arbitrary: acc)
  case Nil
  then show ?case by simp
next
  case (Cons r rs)
  obtain ts s where r: "r = (ts, s)" by (cases r) auto
  with Cons.prems obtain emoji where "map_of emojis s = Some emoji"
    by (auto simp: known_states_def known_state_emojis)
  then show ?case
    using Cons r by (simp add: known_states_def)
qed

lemma set_py_slice: "set (py_slice xs a b) \<subseteq> set xs"
  by (auto simp: py_slice_def Let_def dest: in_set_takeD in_set_dropD)

lemma known_states_page_records:
  "known_states (history st) \<Longrightarrow> known_states (page_records st p)"
  using set_py_slice [of "history st"]
  by (auto simp: known_states_def page_records_def Let_def list_all_iff)

lemma listing_concat: "listing (concat xss) = concat (map listing xss)"
  by (induction xss) (simp_all add: listing_def)

lemma describe_is_listing:
  "describe acc rs = Inr d \<Longrightarrow> d = acc @ listing rs"
proof (induction rs arbitrary: acc)
  case Nil
  then show ?case by (simp add: listing_def)
next
  case (Cons r rs)
  obtain ts s where r: "r = (ts, s)" by (cases r) auto
  show ?case
  proof (cases "map_of emojis s")
    case None
    with Cons.prems r show ?thesis by simp
  next
    case (Some emoji)
    with Cons.prems r have "describe (acc @ history_line emoji ts s) rs = Inr d"
      by simp
    from Cons.IH [OF this] show ?thesis
      using Some r by (simp add: listing_def)
  qed
qed

lemma get_page_known:
  assumes "known_states (history st)" and "get_total_pages st = Inr pages"
  shows "get_page st p =
           Inr \<lparr>title = ''Door History'', description = listing (page_records st p),
                color = Some Blurple, thumbnail = None,
                footer = Some (''Showing page '' @ str_int (p + 1) @ ''/'' @ str_int pages)\<rparr>"
proof -
  obtain d where d: "describe [] (page_records st p) = Inr d"
    using describe_known known_states_page_records assms(1) by blast
  then have "d = listing (page_records st p)"
    using describe_is_listing [of "[]" "page_records st p" d] by simp
  then show ?thesis
    using d assms(2) by (simp add: get_page_def)
qed

lemma page_descriptions_concat:
  assumes "1 \<le> num_per_page st" and "known_states (history st)"
    and "get_total_pages st = Inr pages"
  shows "concat (map (\<lambda>p. case get_page st (int p) of Inl x \<Rightarrow> [] | Inr e \<Rightarrow> description e)
                   [0..<nat pages]) = listing (rev (history st))"
proof -
  have "concat (map (\<lambda>p. case get_page st (int p) of Inl x \<Rightarrow> [] | Inr e \<Rightarrow> description e)
                   [0..<nat pages]) =
        concat (map listing (map (\<lambda>p. page_records st (int p)) [0..<nat pages]))"
    by (simp add: get_page_known [OF assms(2,3)] comp_def)
  also have "\<dots> = listing (concat (map (\<lambda>p. page_records st (int p)) [0..<nat pages]))"
    by (simp only: listing_concat)
  also have "\<dots> = listing (rev (history st))"
    using pages_concat [OF assms(1,3)] by simp
  finally show ?thesis .
qed

text \<open>
  Claim C3. For a page size of at least one, \<open>get_total_pages\<close> is the ceiling of
  the length of the history over the page size. For a history of known states (as every
  history built by ticks is) \<open>get_page\<close> returns, for every page \<open>p \<ge> 0\<close>, the embed
  whose description lists the records at the positions \<open>p * num_per_page\<close> up to
  \<open>p * num_per_page + num_per_page\<close> of the reversed history, clipped to its length,
  and the descriptions of the pages \<open>0\<close> to \<open>get_total_pages() - 1\<close>, one after the
  other, are the listing of the whole reversed history: no record twice, none left out.
  The records the loop of \<open>get_page\<close> goes through are that window for any history, and
  over the pages they make up the reversed history.
\<close>

theorem pagination_round_trip:
  assumes "1 \<le> num_per_page st"
  shows "get_total_pages st =
           Inr \<lceil>real (length (history st)) / real_of_int (num_per_page st)\<rceil> \<and>
         (\<forall>p\<ge>0. page_records st p =
            take (nat (num_per_page st))
              (drop (nat p * nat (num_per_page st)) (rev (history st)))) \<and>
         (\<forall>pages. get_total_pages st = Inr pages \<longrightarrow>
            concat (map (\<lambda>p. page_records st (int p)) [0..<nat pages]) = rev (history st)) \<and>
         (\<forall>p e. get_page st p = Inr e \<longrightarrow> description e = listing (page_records st p)) \<and>
         (known_states (history st) \<longrightarrow>
            (\<forall>pages. get_total_pages st = Inr pages \<longrightarrow>
               (\<forall>p\<ge>0. get_page st p =
                  Inr \<lparr>title = ''Door History'',
                       description =
                         listing (take (nat (num_per_page st))
                           (drop (nat p * nat (num_per_page st)) (rev (history st)))),
                       color = Some Blurple, thumbnail = None,
                       footer = Some (''Showing page '' @ str_int (p + 1) @ ''/'' @
                                      str_int pages)\<rparr>) \<and>
               concat (map (\<lambda>p. case get_page st (int p) of
                                   Inl x \<Rightarrow> []
                                 | Inr e \<Rightarrow> description e) [0..<nat pages]) =
                 listing (rev (history st))))"
proof (intro conjI allI impI)
  show "get_total_pages st =
           Inr \<lceil>real (length (history st)) / real_of_int (num_per_page st)\<rceil>"
    using assms by (rule get_total_pages_ceiling)
next
  fix p :: int
  assume "0 \<le> p"
  with assms show "page_records st p =
            take (nat (num_per_page st))
              (drop (nat p * nat (num_per_page st)) (rev (history st)))"
    by (rule page_records_window)
next
  fix pages
  assume "get_total_pages st = Inr pages"
  with assms show "concat (map (\<lambda>p. page_records st (int p)) [0..<nat pages]) = rev (history st)"
    by (rule pages_concat)
next
  fix p e
  assume "get_page st p = Inr e"
  then obtain d where "describe [] (page_records st p) = Inr d" "description e = d"
    by (auto simp: get_page_def split: sum.splits)
  then show "description e = listing (page_records st p)"
    using describe_is_listing [of "[]" "page_records st p" d] by simp
next
  fix pages and p :: int
  assume k: "known_states (history st)" and t: "get_total_pages st = Inr pages" and p: "0 \<le> p"
  show "get_page st p =
          Inr \<lparr>title = ''Door History'',
               description =
                 listing (take (nat (num_per_page st))
                   (drop (nat p * nat (num_per_page st)) (rev (history st)))),
               color = Some Blurple, thumbnail = None,
               footer = Some (''Showing page '' @ str_int (p + 1) @ ''/'' @ str_int pages)\<rparr>"
    using get_page_known [OF k t, of p] page_records_window [OF assms p] by simp
next
  fix pages
  assume "known_states (history st)" and "get_total_pages st = Inr pages"
  with assms show "concat (map (\<lambda>p. case get_page st (int p) of
                                   Inl x \<Rightarrow> []
                                 | Inr e \<Rightarrow> description e) [0..<nat pages]) =
                 listing (rev (history st))"
    by (rule page_descriptions_concat)
qed

theorem pagination_round_trip_witness:
  "1 \<le> num_per_page (run (Monitor_init 1 2 3) scenario) \<and>
   known_states (history (run (Monitor_init 1 2 3) scenario)) \<and>
   get_total_pages (run (Monitor_init 1 2 3) scenario) = Inr 2 \<and>
   get_page (run (Monitor_init 1 2 3) scenario) 0 =
     Inr \<lparr>title = ''Door History'',
          description = '':unlock: Open - <t:5>'' @ [CHR 0x0A] @
                        '':lock: Closed - <t:4>'' @ [CHR 0x0A],
          color = Some Blurple, thumbnail = None, footer = Some ''Showing page 1/2''\<rparr> \<and>
   get_page (run (Monitor_init 1 2 3) scenario) 1 =
     Inr \<lparr>title = ''Door History'',
          description = '':unlock: Open - <t:2>'' @ [CHR 0x0A],
          color = Some Blurple, thumbnail = None, footer = Some ''Showing page 2/2''\<rparr> \<and>
   page_records (run (Monitor_init 1 2 3) scenario) 0 = [(5, ''Open''), (4, ''Closed'')] \<and>
   page_records (run (Monitor_init 1 2 3) scenario) 1 = [(2, ''Open'')] \<and>
   page_records (run (Monitor_init 1 2 3) scenario) 0 @
   page_records (run (Monitor_init 1 2 3) scenario) 1 =
     rev (history (run (Monitor_init 1 2 3) scenario)) \<and>
   listing (rev (history (run (Monitor_init 1 2 3) scenario))) =
     '':unlock: Open - <t:5>'' @ [CHR 0x0A] @ '':lock: Closed - <t:4>'' @ [CHR 0x0A] @
     '':unlock: Open - <t:2>'' @ [CHR 0x0A]"
proof -
  let ?st = "run (Monitor_init 1 2 3) scenario"
  have pre: "1 \<le> num_per_page ?st"
    by (simp add: scenario_state)
  have known: "known_states (history ?st)"
    by (simp add: scenario_state known_states_def known_state_def)
  note main = pagination_round_trip [OF pre]
  have total: "get_total_pages ?st = Inr 2"
    by (simp add: scenario_state get_total_pages_def)
  have s: "str_int 1 = ''1''" "str_int 2 = ''2''" "str_int 4 = ''4''" "str_int 5 = ''5''"
    by code_simp+
  have pages: "\<forall>p\<ge>0. get_page ?st p =
      Inr \<lparr>title = ''Door History'',
           description =
             listing (take (nat (num_per_page ?st))
               (drop (nat p * nat (num_per_page ?st)) (rev (history ?st)))),
           color = Some Blurple, thumbnail = None,
           footer = Some (''Showing page '' @ str_int (p + 1) @ ''/'' @ str_int 2)\<rparr>"
    using main known total by blast
  have g0: "get_page ?st 0 =
     Inr \<lparr>title = ''Door History'',
          description = '':unlock: Open - <t:5>'' @ [CHR 0x0A] @
                        '':lock: Closed - <t:4>'' @ [CHR 0x0A],
          color = Some Blurple, thumbnail = None, footer = Some ''Showing page 1/2''\<rparr>"
    using pages [rule_format, of 0]
    by (simp add: scenario_state listing_def emojis_def history_line_def s)
  have g1: "get_page ?st 1 =
     Inr \<lparr>title = ''Door History'',
          description = '':unlock: Open - <t:2>'' @ [CHR 0x0A],
          color = Some Blurple, thumbnail = None, footer = Some ''Showing page 2/2''\<rparr>"
    using pages [rule_format, of 1]
    by (simp add: scenario_state listing_def emojis_def history_line_def s)
  have p0: "page_records ?st 0 = [(5, ''Open''), (4, ''Closed'')]"
    and p1: "page_records ?st 1 = [(2, ''Open'')]"
    using main by (simp_all add: scenario_state)
  have "concat (map (\<lambda>p. page_records ?st (int p)) [0..<nat 2]) = rev (history ?st)"
    using main total by blast
  then have all: "page_records ?st 0 @ page_records ?st 1 = rev (history ?st)"
    by (simp add: numeral_2_eq_2)
  have l: "listing (rev (history ?st)) =
     '':unlock: Open - <t:5>'' @ [CHR 0x0A] @ '':lock: Closed - <t:4>'' @ [CHR 0x0A] @
     '':unlock: Open - <t:2>'' @ [CHR 0x0A]"
    by (simp add: scenario_state listing_def emojis_def history_line_def s)
  show ?thesis
    using pre known total g0 g1 p0 p1 all l by blast
qed

text \<open>
  Claim C9. For a page size of at least one, a page index at or beyond
  \<open>get_total_pages()\<close> gives an embed with an empty description, and no exception.
  When the history holds only the states the ticks write (as every history built by
  ticks does), \<open>get_page\<close> returns an embed for every page index, negative ones too.
\<close>

theorem page_beyond_history_is_empty:
  assumes "1 \<le> num_per_page st"
  shows "(\<forall>pages p. get_total_pages st = Inr pages \<and> pages \<le> p \<longrightarrow>
            page_records st p = [] \<and>
            get_page st p =
              Inr \<lparr>title = ''Door History'', description = [], color = Some Blurple,
                   thumbnail = None,
                   footer = Some (''Showing page '' @ str_int (p + 1) @ ''/'' @
                                  str_int pages)\<rparr>) \<and>
         (known_states (history st) \<longrightarrow> (\<forall>p. \<exists>e. get_page st p = Inr e))"
proof (intro conjI allI impI)
  fix pages p
  assume a: "get_total_pages st = Inr pages \<and> pages \<le> p"
  then show empty: "page_records st p = []"
    using page_records_beyond [OF assms, of pages p] by simp
  show "get_page st p =
              Inr \<lparr>title = ''Door History'', description = [], color = Some Blurple,
                   thumbnail = None,
                   footer = Some (''Showing page '' @ str_int (p + 1) @ ''/'' @
                                  str_int pages)\<rparr>"
    using a empty by (simp add: get_page_def)
next
  fix p
  assume "known_states (history st)"
  then obtain d where "describe [] (page_records st p) = Inr d"
    using describe_known known_states_page_records by blast
  moreover obtain pages where "get_total_pages st = Inr pages"
    using assms by (auto simp: get_total_pages_def)
  ultimately show "\<exists>e. get_page st p = Inr e"
    by (simp add: get_page_def)
qed

theorem page_beyond_history_is_empty_witness:
  "1 \<le> num_per_page (run (Monitor_init 1 2 3) scenario) \<and>
   get_total_pages (run (Monitor_init 1 2 3) scenario) = Inr 2 \<and>
   page_records (run (Monitor_init 1 2 3) scenario) 2 = [] \<and>
   get_page (run (Monitor_init 1 2 3) scenario) 2 =
     Inr \<lparr>title = ''Door History'', description = [], color = Some Blurple,
          thumbnail = None, footer = Some ''Showing page 3/2''\<rparr> \<and>
   known_states (history (run (Monitor_init 1 2 3) scenario)) \<and>
   (\<exists>e. get_page (run (Monitor_init 1 2 3) scenario) (- 1) = Inr e) \<and>
   get_page (run (Monitor_init 1 2 3) scenario) (- 1) =
     Inr \<lparr>title = ''Door History'',
          description = '':lock: Closed - <t:4>'' @ [CHR 0x0A] @
                        '':unlock: Open - <t:2>'' @ [CHR 0x0A],
          color = Some Blurple, thumbnail = None, footer = Some ''Showing page 0/2''\<rparr>"
proof -
  let ?st = "run (Monitor_init 1 2 3) scenario"
  have pre: "1 \<le> num_per_page ?st"
    by (simp add: scenario_state)
  note main = page_beyond_history_is_empty [OF pre]
  have total: "get_total_pages ?st = Inr 2"
    by (simp add: scenario_state get_total_pages_def)
  have s: "str_int 3 = ''3''" "str_int 2 = ''2''" "str_int 0 = ''0''" "str_int 4 = ''4''"
    by code_simp+
  have beyond: "page_records ?st 2 = [] \<and>
      get_page ?st 2 =
        Inr \<lparr>title = ''Door History'', description = [], color = Some Blurple,
             thumbnail = None, footer = Some ''Showing page 3/2''\<rparr>"
    using main total s by simp
  have known: "known_states (history ?st)"
    by (simp add: scenario_state known_states_def known_state_def)
  have neg: "\<exists>e. get_page ?st (- 1) = Inr e"
    using main known by blast
  have negv: "get_page ?st (- 1) =
     Inr \<lparr>title = ''Door History'',
          description = '':lock: Closed - <t:4>'' @ [CHR 0x0A] @
                        '':unlock: Open - <t:2>'' @ [CHR 0x0A],
          color = Some Blurple, thumbnail = None, footer = Some ''Showing page 0/2''\<rparr>"
    by (simp add: scenario_state get_page_def page_records_def py_slice_def
          get_total_pages_def emojis_def history_line_def s)
  show ?thesis
    using pre total beyond known neg negv by blast
qed

end
